theory Spec2Isabelle
  imports Complex_Main
begin

section \<open>World Engine editor: document model, serializer, tree index, selection and mode\<close>

text \<open>
  A shallow embedding of \<^verbatim>\<open>src/Resources/world-engine/editor-app.js\<close>: the validator
  (\<^verbatim>\<open>validateWorldDocument\<close> and its helpers), the serializer (\<^verbatim>\<open>serializeWorld\<close>,
  \<^verbatim>\<open>deserializeWorld\<close>), the tree index (\<^verbatim>\<open>updateNodeById\<close>), the
  \<^verbatim>\<open>SelectionManager\<close> and the \<^verbatim>\<open>ModeManager\<close>.
\<close>

subsection \<open>JavaScript values\<close>

text \<open>
  Numbers are IEEE doubles in the source. The validator only asks whether a number is finite and
  the serializer only compares the version with 1, so a number is modelled by its exact value
  (a rational) or one of the four special values; no arithmetic is done on them.
\<close>

datatype jsnum = Fin rat | NegZero | NaN | PosInf | NegInf

text \<open>
  A value is \<^verbatim>\<open>undefined\<close>, \<^verbatim>\<open>null\<close>, a boolean, a number, a string, an array or a plain
  object. An object is the list of its own properties in insertion order; a property that is
  present with the value \<^verbatim>\<open>undefined\<close> is an entry whose value is \<open>JUndefined\<close>.
  Strings are sequences of code units below 256.
\<close>

datatype jsval =
    JUndefined
  | JNull
  | JBool bool
  | JNum jsnum
  | JStr string
  | JArr "jsval list"
  | JObj "(string \<times> jsval) list"

datatype js_error =
    TypeError
  | SyntaxError
  | FutureVersionError jsval
  | InvalidDocumentError "string list"

text \<open>\<^verbatim>\<open>CURRENT_WORLD_SCHEMA_VERSION = 1\<close>\<close>

definition CURRENT_WORLD_SCHEMA_VERSION :: jsnum where
  "CURRENT_WORLD_SCHEMA_VERSION = Fin 1"

text \<open>\<^verbatim>\<open>value[key]\<close> for a key that is not a built-in property of arrays or strings\<close>

fun js_get :: "jsval \<Rightarrow> string \<Rightarrow> jsval" where
  "js_get (JObj kvs) k = (case map_of kvs k of Some v \<Rightarrow> v | None \<Rightarrow> JUndefined)"
| "js_get v k = JUndefined"

text \<open>\<^verbatim>\<open>key in value\<close>, used by the source on objects only\<close>

fun js_in :: "string \<Rightarrow> jsval \<Rightarrow> bool" where
  "js_in k (JObj kvs) = (k \<in> fst ` set kvs)"
| "js_in k v = False"

text \<open>\<^verbatim>\<open>{ ...obj, key: v }\<close>: the property keeps its place when it exists, else it is added last\<close>

fun set_prop :: "string \<Rightarrow> jsval \<Rightarrow> (string \<times> jsval) list \<Rightarrow> (string \<times> jsval) list" where
  "set_prop k v [] = [(k, v)]"
| "set_prop k v ((k', v') # kvs) = (if k' = k then (k, v) # kvs else (k', v') # set_prop k v kvs)"

text \<open>Truthiness (\<^verbatim>\<open>ToBoolean\<close>)\<close>

fun truthy :: "jsval \<Rightarrow> bool" where
  "truthy JUndefined = False"
| "truthy JNull = False"
| "truthy (JBool b) = b"
| "truthy (JNum (Fin q)) = (q \<noteq> 0)"
| "truthy (JNum NegZero) = False"
| "truthy (JNum NaN) = False"
| "truthy (JNum PosInf) = True"
| "truthy (JNum NegInf) = True"
| "truthy (JStr s) = (s \<noteq> [])"
| "truthy (JArr xs) = True"
| "truthy (JObj kvs) = True"

text \<open>\<^verbatim>\<open>typeof value === 'object' && value !== null && !Array.isArray(value)\<close>\<close>

fun isObject :: "jsval \<Rightarrow> bool" where
  "isObject (JObj kvs) = True"
| "isObject v = False"

text \<open>\<^verbatim>\<open>typeof value === 'number' && Number.isFinite(value)\<close>\<close>

fun isFiniteNumber :: "jsval \<Rightarrow> bool" where
  "isFiniteNumber (JNum (Fin q)) = True"
| "isFiniteNumber (JNum NegZero) = True"
| "isFiniteNumber v = False"

fun isString :: "jsval \<Rightarrow> bool" where
  "isString (JStr s) = True"
| "isString v = False"

text \<open>
  \<^verbatim>\<open>String.prototype.trim\<close> removes white space and line terminators; among the code units
  below 256 these are 9 to 13, 32 and 160. \<open>is_blank s\<close> is \<^verbatim>\<open>!s.trim()\<close>.
\<close>

definition is_ws :: "char \<Rightarrow> bool" where
  "is_ws c = (of_char c \<in> {9, 10, 11, 12, 13, 32, 160 :: nat})"

definition is_blank :: "string \<Rightarrow> bool" where
  "is_blank s = list_all is_ws s"

text \<open>\<^verbatim>\<open>typeof v !== 'string' || !v.trim()\<close>\<close>

fun notNonEmptyString :: "jsval \<Rightarrow> bool" where
  "notNonEmptyString (JStr s) = is_blank s"
| "notNonEmptyString v = True"

text \<open>Decimal rendering of an array index inside a template string\<close>

definition digit_char :: "nat \<Rightarrow> char" where
  "digit_char d = ''0123456789'' ! d"

function show_nat :: "nat \<Rightarrow> string" where
  "show_nat n = (if n < 10 then [digit_char n] else show_nat (n div 10) @ [digit_char (n mod 10)])"
  by pat_completeness auto
termination
  by (relation "measure id") auto

declare show_nat.simps [simp del]

definition apostrophe :: string where
  "apostrophe = [CHR 0x27]"

subsection \<open>Validator\<close>

fun validateVector3 :: "jsval \<Rightarrow> string \<Rightarrow> string list" where
  "validateVector3 v path =
     (if \<not> isObject v then [path @ '' must be an object with x, y, and z numbers'']
      else concat (map (\<lambda>key. if \<not> isFiniteNumber (js_get v key)
                                then [path @ ''.'' @ key @ '' must be a finite number''] else [])
                       [''x'', ''y'', ''z'']))"

fun validateQuaternion :: "jsval \<Rightarrow> string \<Rightarrow> string list" where
  "validateQuaternion v path =
     (if \<not> isObject v then [path @ '' must be an object with x, y, z, and w numbers'']
      else concat (map (\<lambda>key. if \<not> isFiniteNumber (js_get v key)
                                then [path @ ''.'' @ key @ '' must be a finite number''] else [])
                       [''x'', ''y'', ''z'', ''w'']))"

fun validateTransform :: "jsval \<Rightarrow> string \<Rightarrow> string list" where
  "validateTransform v path =
     (if \<not> isObject v then [path @ '' must be an object'']
      else (if js_in ''position'' v then validateVector3 (js_get v ''position'') (path @ ''.position'') else [])
         @ (if js_in ''rotation'' v then validateQuaternion (js_get v ''rotation'') (path @ ''.rotation'') else [])
         @ (if js_in ''scale'' v then validateVector3 (js_get v ''scale'') (path @ ''.scale'') else []))"

fun validateComponent :: "jsval \<Rightarrow> string \<Rightarrow> string list" where
  "validateComponent component path =
     (if \<not> isObject component then [path @ '' must be an object'']
      else (if notNonEmptyString (js_get component ''type'')
            then [path @ ''.type must be a non-empty string''] else [])
         @ (if js_in ''data'' component \<and> \<not> isObject (js_get component ''data'')
            then [path @ ''.data must be an object when present''] else []))"

text \<open>
  \<^verbatim>\<open>assets.find((asset) => asset.id === assetId)\<close>. Reading \<^verbatim>\<open>asset.id\<close> throws a
  \<^verbatim>\<open>TypeError\<close> when the entry is \<^verbatim>\<open>null\<close> or \<^verbatim>\<open>undefined\<close>; on every other value that is
  not an object with an own \<^verbatim>\<open>id\<close> it is \<^verbatim>\<open>undefined\<close>.
\<close>

fun member_id :: "jsval \<Rightarrow> js_error + jsval" where
  "member_id JUndefined = Inl TypeError"
| "member_id JNull = Inl TypeError"
| "member_id v = Inr (js_get v ''id'')"

fun find_asset :: "jsval list \<Rightarrow> string \<Rightarrow> js_error + jsval" where
  "find_asset [] assetId = Inr JUndefined"
| "find_asset (asset # rest) assetId =
     (case member_id asset of
        Inl e \<Rightarrow> Inl e
      | Inr v \<Rightarrow> if v = JStr assetId then Inr asset else find_asset rest assetId)"

text \<open>
  The third parameter has the default \<^verbatim>\<open>[]\<close>, taken when the caller passes \<^verbatim>\<open>undefined\<close>
  (here \<open>None\<close>).
\<close>

fun validateNodeAssetReference :: "jsval \<Rightarrow> string \<Rightarrow> jsval list option \<Rightarrow> js_error + string list" where
  "validateNodeAssetReference assetRef path assetsArg =
     (let assets = (case assetsArg of None \<Rightarrow> [] | Some a \<Rightarrow> a) in
      if \<not> isObject assetRef then Inr [path @ '' must be an object'']
      else
        let optionErrors =
              (if js_in ''options'' assetRef \<and> \<not> isObject (js_get assetRef ''options'')
               then [path @ ''.options must be an object when present''] else [])
        in case js_get assetRef ''assetId'' of
             JStr assetId \<Rightarrow>
               (if is_blank assetId
                then Inr ([path @ ''.assetId must be a non-empty string''] @ optionErrors)
                else (case find_asset assets assetId of
                        Inl e \<Rightarrow> Inl e
                      | Inr found \<Rightarrow>
                          if \<not> truthy found
                          then Inr ([path @ ''.assetId references missing asset '' @ apostrophe
                                       @ assetId @ apostrophe] @ optionErrors)
                          else Inr optionErrors))
           | _ \<Rightarrow> Inr ([path @ ''.assetId must be a non-empty string''] @ optionErrors))"

text \<open>The id check of a scene node; \<^verbatim>\<open>context.seenIds\<close> is returned updated.\<close>

fun validateNodeId :: "jsval \<Rightarrow> string \<Rightarrow> string set \<Rightarrow> string list \<times> string set" where
  "validateNodeId node path seenIds =
     (case js_get node ''id'' of
        JStr nodeId \<Rightarrow>
          (if is_blank nodeId then ([path @ ''.id must be a non-empty string''], seenIds)
           else if nodeId \<in> seenIds
             then ([path @ ''.id '' @ apostrophe @ nodeId @ apostrophe @ '' must be unique''], seenIds)
           else ([], insert nodeId seenIds))
      | _ \<Rightarrow> ([path @ ''.id must be a non-empty string''], seenIds))"

fun validateNodeName :: "jsval \<Rightarrow> string \<Rightarrow> string list" where
  "validateNodeName node path =
     (if js_in ''name'' node \<and> \<not> isString (js_get node ''name'')
      then [path @ ''.name must be a string when present''] else [])"

fun validateNodeTags :: "jsval \<Rightarrow> string \<Rightarrow> string list" where
  "validateNodeTags node path =
     (if js_in ''tags'' node then
        (case js_get node ''tags'' of
           JArr tags \<Rightarrow> if list_ex (\<lambda>tag. \<not> isString tag) tags
                        then [path @ ''.tags must be an array of strings when present''] else []
         | _ \<Rightarrow> [path @ ''.tags must be an array of strings when present''])
      else [])"

fun validateComponents :: "jsval list \<Rightarrow> nat \<Rightarrow> string \<Rightarrow> string list" where
  "validateComponents [] index path = []"
| "validateComponents (component # rest) index path =
     validateComponent component (path @ ''.components['' @ show_nat index @ '']'')
       @ validateComponents rest (Suc index) path"

fun validateNodeComponents :: "jsval \<Rightarrow> string \<Rightarrow> string list" where
  "validateNodeComponents node path =
     (if js_in ''components'' node then
        (case js_get node ''components'' of
           JArr components \<Rightarrow> validateComponents components 0 path
         | _ \<Rightarrow> [path @ ''.components must be an array when present''])
      else [])"

text \<open>The checks of a node that come before its asset reference and its children\<close>

definition validateNodeFields :: "jsval \<Rightarrow> string \<Rightarrow> string list" where
  "validateNodeFields node path =
     validateNodeName node path @ validateNodeTags node path
       @ (if js_in ''transform'' node
          then validateTransform (js_get node ''transform'') (path @ ''.transform'') else [])
       @ validateNodeComponents node path"

definition validateNodeAsset :: "jsval \<Rightarrow> string \<Rightarrow> jsval list option \<Rightarrow> js_error + string list" where
  "validateNodeAsset node path assets =
     (if js_in ''asset'' node
      then validateNodeAssetReference (js_get node ''asset'') (path @ ''.asset'') assets
      else Inr [])"

text \<open>
  \<^verbatim>\<open>validateSceneNode(node, path, context)\<close>, with \<^verbatim>\<open>context.assets\<close> and
  \<^verbatim>\<open>context.seenIds\<close> as arguments; the set of seen ids is mutated by the source and returned
  here with the errors. \<open>validateSceneNodes\<close> is the \<^verbatim>\<open>forEach\<close> over an array of nodes whose
  paths are \<^verbatim>\<open>prefix[index]\<close>. An exception ends the whole validation.
\<close>

function validateSceneNode ::
    "jsval \<Rightarrow> string \<Rightarrow> jsval list option \<Rightarrow> string set \<Rightarrow> js_error + (string list \<times> string set)"
  and validateSceneNodes ::
    "jsval list \<Rightarrow> nat \<Rightarrow> string \<Rightarrow> jsval list option \<Rightarrow> string set
       \<Rightarrow> js_error + (string list \<times> string set)"
where
  "validateSceneNode node path assets seenIds =
     (if \<not> isObject node then Inr ([path @ '' must be an object''], seenIds)
      else
        (case validateNodeId node path seenIds of
           (idErrors, seen1) \<Rightarrow>
             (case validateNodeAsset node path assets of
                Inl e \<Rightarrow> Inl e
              | Inr assetErrors \<Rightarrow>
                  let errors = idErrors @ validateNodeFields node path @ assetErrors
                  in if js_in ''children'' node then
                       (case js_get node ''children'' of
                          JArr children \<Rightarrow>
                            (case validateSceneNodes children 0 (path @ ''.children'') assets seen1 of
                               Inl e \<Rightarrow> Inl e
                             | Inr (childErrors, seen2) \<Rightarrow> Inr (errors @ childErrors, seen2))
                        | _ \<Rightarrow> Inr (errors @ [path @ ''.children must be an array when present''],
                                    seen1))
                     else Inr (errors, seen1))))"
| "validateSceneNodes [] index prefix assets seenIds = Inr ([], seenIds)"
| "validateSceneNodes (node # rest) index prefix assets seenIds =
     (case validateSceneNode node (prefix @ ''['' @ show_nat index @ '']'') assets seenIds of
        Inl e \<Rightarrow> Inl e
      | Inr (errors, seen1) \<Rightarrow>
          (case validateSceneNodes rest (Suc index) prefix assets seen1 of
             Inl e \<Rightarrow> Inl e
           | Inr (restErrors, seen2) \<Rightarrow> Inr (errors @ restErrors, seen2)))"
  by pat_completeness auto
termination
proof (relation "measure (\<lambda>x. case x of Inl (node, _) \<Rightarrow> size node
                                       | Inr (nodes, _) \<Rightarrow> size_list size nodes)")
  fix node :: jsval and children :: "jsval list"
  assume g: "js_get node ''children'' = JArr children"
  have "size_list size children < size node"
  proof (cases node)
    case (JObj kvs)
    from g JObj have "map_of kvs ''children'' = Some (JArr children)"
      by (simp split: option.splits)
    then have "(''children'', JArr children) \<in> set kvs"
      by (rule map_of_SomeD)
    then have "size_prod (\<lambda>x. 0) size (''children'', JArr children)
                 \<le> size_list (size_prod (\<lambda>x. 0) size) kvs"
      by (simp add: size_list_estimation')
    with JObj show ?thesis by simp
  qed (use g in simp_all)
  then show "\<And>path assets seenIds x y.
       (Inr (children, 0, path @ ''.children'', assets, y), Inl (node, path, assets, seenIds))
         \<in> measure (\<lambda>x. case x of Inl (node, _) \<Rightarrow> size node
                                  | Inr (nodes, _) \<Rightarrow> size_list size nodes)"
    by simp
qed auto

declare validateSceneNode.simps [simp del]

text \<open>The callback of \<^verbatim>\<open>assets.forEach\<close> in \<^verbatim>\<open>validateAssets\<close>, with its local \<^verbatim>\<open>seenIds\<close>\<close>

fun validateAssetEntry :: "jsval \<Rightarrow> string \<Rightarrow> string set \<Rightarrow> string list \<times> string set" where
  "validateAssetEntry asset assetPath seenIds =
     (if \<not> isObject asset then ([assetPath @ '' must be an object''], seenIds)
      else
        let idResult =
              (case js_get asset ''id'' of
                 JStr assetId \<Rightarrow>
                   (if is_blank assetId then ([assetPath @ ''.id must be a non-empty string''], seenIds)
                    else if assetId \<in> seenIds
                      then ([assetPath @ ''.id '' @ apostrophe @ assetId @ apostrophe
                               @ '' must be unique''], seenIds)
                    else ([], insert assetId seenIds))
               | _ \<Rightarrow> ([assetPath @ ''.id must be a non-empty string''], seenIds))
        in (fst idResult
              @ (if notNonEmptyString (js_get asset ''uri'')
                 then [assetPath @ ''.uri must be a non-empty string''] else [])
              @ (if truthy (js_get asset ''type'') \<and> \<not> isString (js_get asset ''type'')
                 then [assetPath @ ''.type must be a string when present''] else []),
            snd idResult))"

fun validateAssetEntries :: "jsval list \<Rightarrow> nat \<Rightarrow> string \<Rightarrow> string set \<Rightarrow> string list" where
  "validateAssetEntries [] index path seenIds = []"
| "validateAssetEntries (asset # rest) index path seenIds =
     (case validateAssetEntry asset (path @ ''['' @ show_nat index @ '']'') seenIds of
        (errors, seen1) \<Rightarrow> errors @ validateAssetEntries rest (Suc index) path seen1)"

text \<open>\<^verbatim>\<open>validateAssets\<close> returns \<^verbatim>\<open>{ errors, assetList }\<close>; \<open>None\<close> is an absent \<^verbatim>\<open>assetList\<close>.\<close>

fun validateAssets :: "jsval \<Rightarrow> string \<Rightarrow> string list \<times> jsval list option" where
  "validateAssets JUndefined path = ([], None)"
| "validateAssets (JArr assets) path = (validateAssetEntries assets 0 path {}, Some assets)"
| "validateAssets v path = ([path @ '' must be an array when present''], None)"

record validation =
  valid :: bool
  errors :: "string list"

definition validateWorldDocument :: "jsval \<Rightarrow> js_error + validation" where
  "validateWorldDocument world =
     (if \<not> isObject world then Inr \<lparr>valid = False, errors = [''World must be an object'']\<rparr>
      else
        (case validateAssets (js_get world ''assets'') ''assets'' of
           (assetErrors, assetList) \<Rightarrow>
             (case js_get world ''nodes'' of
                JArr nodes \<Rightarrow>
                  (case validateSceneNodes nodes 0 ''nodes'' assetList {} of
                     Inl e \<Rightarrow> Inl e
                   | Inr (nodeErrors, seen) \<Rightarrow>
                       Inr \<lparr>valid = (assetErrors @ nodeErrors = []),
                            errors = assetErrors @ nodeErrors\<rparr>)
              | _ \<Rightarrow> Inr \<lparr>valid = (assetErrors @ [''nodes must be an array''] = []),
                          errors = assetErrors @ [''nodes must be an array'']\<rparr>)))"

subsection \<open>The walk of the validator over a forest\<close>

text \<open>
  The scene nodes of a forest as the validator walks it, each with its path: the records among
  the entries of \<^verbatim>\<open>nodes\<close>, and after each of them the records among the entries of its
  \<^verbatim>\<open>children\<close> when that is an array (pre-order, depth first, document order).
\<close>

function scene_node :: "jsval \<Rightarrow> string \<Rightarrow> (string \<times> jsval) list"
  and scene_nodes :: "jsval list \<Rightarrow> nat \<Rightarrow> string \<Rightarrow> (string \<times> jsval) list"
where
  "scene_node node path =
     (if \<not> isObject node then []
      else (path, node) #
           (case js_get node ''children'' of
              JArr children \<Rightarrow> scene_nodes children 0 (path @ ''.children'')
            | _ \<Rightarrow> []))"
| "scene_nodes [] index prefix = []"
| "scene_nodes (node # rest) index prefix =
     scene_node node (prefix @ ''['' @ show_nat index @ '']'') @ scene_nodes rest (Suc index) prefix"
  by pat_completeness auto
termination
proof (relation "measure (\<lambda>x. case x of Inl (node, _) \<Rightarrow> size node
                                       | Inr (ns, _) \<Rightarrow> size_list size ns)")
  fix node :: jsval and children :: "jsval list"
  assume g: "js_get node ''children'' = JArr children"
  have "size_list size children < size node"
  proof (cases node)
    case (JObj kvs)
    from g JObj have "map_of kvs ''children'' = Some (JArr children)"
      by (simp split: option.splits)
    then have "(''children'', JArr children) \<in> set kvs"
      by (rule map_of_SomeD)
    then have "size_prod (\<lambda>x. 0) size (''children'', JArr children)
                 \<le> size_list (size_prod (\<lambda>x. 0) size) kvs"
      by (simp add: size_list_estimation')
    with JObj show ?thesis by simp
  qed (use g in simp_all)
  then show "\<And>path. (Inr (children, 0, path @ ''.children''), Inl (node, path))
         \<in> measure (\<lambda>x. case x of Inl (node, _) \<Rightarrow> size node
                                  | Inr (ns, _) \<Rightarrow> size_list size ns)"
    by simp
qed auto

declare scene_node.simps [simp del]

text \<open>The (path, id) of the visited nodes whose id is a non-blank string, in the same order\<close>

fun node_ids :: "(string \<times> jsval) list \<Rightarrow> (string \<times> string) list" where
  "node_ids [] = []"
| "node_ids (visit # rest) =
     (case js_get (snd visit) ''id'' of
        JStr nodeId \<Rightarrow> if is_blank nodeId then node_ids rest else (fst visit, nodeId) # node_ids rest
      | _ \<Rightarrow> node_ids rest)"

text \<open>
  The occurrences of an id that was met before (or is in \<open>seen\<close> at the start): all but the
  first occurrence of each id
\<close>

fun repeats :: "(string \<times> string) list \<Rightarrow> string set \<Rightarrow> (string \<times> string) list" where
  "repeats [] seen = []"
| "repeats (occ # rest) seen =
     (if snd occ \<in> seen then occ # repeats rest seen else repeats rest (insert (snd occ) seen))"

text \<open>The two messages, for the node at a path\<close>

definition unique_message :: "string \<times> string \<Rightarrow> string" where
  "unique_message occ = fst occ @ ''.id '' @ apostrophe @ snd occ @ apostrophe @ '' must be unique''"

definition missing_message :: "string \<times> string \<Rightarrow> string" where
  "missing_message occ =
     fst occ @ ''.asset.assetId references missing asset '' @ apostrophe @ snd occ @ apostrophe"

text \<open>
  The \<^verbatim>\<open>assets\<close> array of a document as it is, whatever its entries are; empty when
  \<^verbatim>\<open>assets\<close> is absent or not an array
\<close>

definition asset_list :: "jsval \<Rightarrow> jsval list" where
  "asset_list doc = (case js_get doc ''assets'' of JArr assets \<Rightarrow> assets | _ \<Rightarrow> [])"

text \<open>
  The (path, assetId) of the visited nodes whose asset reference carries a non-blank string
  \<^verbatim>\<open>assetId\<close> that is the \<^verbatim>\<open>id\<close> of no entry of the asset list
\<close>

fun unresolved :: "jsval list \<Rightarrow> (string \<times> jsval) list \<Rightarrow> (string \<times> string) list" where
  "unresolved assets [] = []"
| "unresolved assets (visit # rest) =
     (case js_get (js_get (snd visit) ''asset'') ''assetId'' of
        JStr assetId \<Rightarrow>
          if \<not> is_blank assetId \<and> list_all (\<lambda>asset. js_get asset ''id'' \<noteq> JStr assetId) assets
          then (fst visit, assetId) # unresolved assets rest
          else unresolved assets rest
      | _ \<Rightarrow> unresolved assets rest)"

text \<open>
  Recognising the two kinds of message in the list of errors: a message about nodes starts
  with \<^verbatim>\<open>nodes\<close>; of all the messages of the validator only the uniqueness message ends
  with \<^verbatim>\<open>' must be unique\<close> and only the missing-asset message ends with a quoted id.
  Every other message is \<open>plain\<close>.
\<close>

definition about_nodes :: "string \<Rightarrow> bool" where
  "about_nodes e = (take 5 e = ''nodes'')"

definition ends_with :: "string \<Rightarrow> string \<Rightarrow> bool" where
  "ends_with tail e = (length tail \<le> length e \<and> drop (length e - length tail) e = tail)"

definition is_node_uniqueness_error :: "string \<Rightarrow> bool" where
  "is_node_uniqueness_error e = (about_nodes e \<and> ends_with (apostrophe @ '' must be unique'') e)"

definition is_missing_asset_error :: "string \<Rightarrow> bool" where
  "is_missing_asset_error e = (about_nodes e \<and> ends_with apostrophe e)"

definition plain :: "string \<Rightarrow> bool" where
  "plain e = (e \<noteq> [] \<and> last e \<noteq> CHR ''e'' \<and> last e \<noteq> CHR 0x27)"

subsection \<open>Serializer\<close>

text \<open>
  \<^verbatim>\<open>JSON.stringify\<close> and \<^verbatim>\<open>JSON.parse\<close> belong to the language. A wire text is modelled by
  the value that \<^verbatim>\<open>JSON.parse\<close> reads from it, \<open>None\<close> being a text that \<^verbatim>\<open>JSON.parse\<close>
  rejects; \<^verbatim>\<open>JSON.stringify\<close> is then the conversion that decides what the text holds: a
  property whose value is \<^verbatim>\<open>undefined\<close> is left out, \<^verbatim>\<open>undefined\<close> in an array and every
  non-finite number become \<^verbatim>\<open>null\<close>, and negative zero is written as \<^verbatim>\<open>0\<close>.
  \<^verbatim>\<open>JSON.stringify(undefined)\<close> is \<^verbatim>\<open>undefined\<close>, which \<^verbatim>\<open>JSON.parse\<close> rejects.
\<close>

type_synonym wire = "jsval option"

fun num_to_json :: "jsnum \<Rightarrow> jsval" where
  "num_to_json (Fin q) = JNum (Fin q)"
| "num_to_json NegZero = JNum (Fin 0)"
| "num_to_json n = JNull"

fun to_json :: "jsval \<Rightarrow> jsval option"
  and to_json_elems :: "jsval list \<Rightarrow> jsval list"
  and to_json_props :: "(string \<times> jsval) list \<Rightarrow> (string \<times> jsval) list"
where
  "to_json JUndefined = None"
| "to_json JNull = Some JNull"
| "to_json (JBool b) = Some (JBool b)"
| "to_json (JNum n) = Some (num_to_json n)"
| "to_json (JStr s) = Some (JStr s)"
| "to_json (JArr xs) = Some (JArr (to_json_elems xs))"
| "to_json (JObj kvs) = Some (JObj (to_json_props kvs))"
| "to_json_elems [] = []"
| "to_json_elems (x # xs) = (case to_json x of None \<Rightarrow> JNull | Some j \<Rightarrow> j) # to_json_elems xs"
| "to_json_props [] = []"
| "to_json_props (kv # kvs) =
     (case to_json (snd kv) of
        None \<Rightarrow> to_json_props kvs
      | Some j \<Rightarrow> (fst kv, j) # to_json_props kvs)"

definition JSON_stringify :: "jsval \<Rightarrow> wire" where
  "JSON_stringify v = to_json v"

definition JSON_parse :: "wire \<Rightarrow> js_error + jsval" where
  "JSON_parse text = (case text of None \<Rightarrow> Inl SyntaxError | Some v \<Rightarrow> Inr v)"

text \<open>The own enumerable properties that an object spread \<^verbatim>\<open>{ ...value }\<close> copies\<close>

fun own_props :: "jsval \<Rightarrow> (string \<times> jsval) list" where
  "own_props (JObj kvs) = kvs"
| "own_props (JArr xs) = zip (map show_nat [0..<length xs]) xs"
| "own_props (JStr s) = zip (map show_nat [0..<length s]) (map (\<lambda>c. JStr [c]) s)"
| "own_props v = []"

text \<open>\<^verbatim>\<open>{ ...world, version: CURRENT_WORLD_SCHEMA_VERSION }\<close>\<close>

definition with_version :: "jsval \<Rightarrow> jsval" where
  "with_version world = JObj (set_prop ''version'' (JNum CURRENT_WORLD_SCHEMA_VERSION) (own_props world))"

definition serializeWorld :: "jsval \<Rightarrow> js_error + wire" where
  "serializeWorld world =
     (case validateWorldDocument world of
        Inl e \<Rightarrow> Inl e
      | Inr validation \<Rightarrow>
          if \<not> valid validation then Inl (InvalidDocumentError (errors validation))
          else Inr (JSON_stringify (with_version world)))"

text \<open>
  \<^verbatim>\<open>parsed.version > CURRENT_WORLD_SCHEMA_VERSION\<close> converts the version to a number. The
  conversion of a string, an array or an object (\<^verbatim>\<open>ToNumber\<close> after \<^verbatim>\<open>ToPrimitive\<close>) is a
  parameter \<open>coerce\<close>: it is the language's and reads decimal texts into doubles.
\<close>

fun to_number :: "(jsval \<Rightarrow> jsnum) \<Rightarrow> jsval \<Rightarrow> jsnum" where
  "to_number coerce JUndefined = NaN"
| "to_number coerce JNull = Fin 0"
| "to_number coerce (JBool b) = (if b then Fin 1 else Fin 0)"
| "to_number coerce (JNum n) = n"
| "to_number coerce v = coerce v"

fun finite_value :: "jsnum \<Rightarrow> rat" where
  "finite_value (Fin q) = q"
| "finite_value n = 0"

fun num_gt :: "jsnum \<Rightarrow> jsnum \<Rightarrow> bool" where
  "num_gt NaN y = False"
| "num_gt x NaN = False"
| "num_gt PosInf y = (y \<noteq> PosInf)"
| "num_gt x PosInf = False"
| "num_gt NegInf y = False"
| "num_gt x NegInf = True"
| "num_gt x y = (finite_value y < finite_value x)"

definition js_gt :: "(jsval \<Rightarrow> jsnum) \<Rightarrow> jsval \<Rightarrow> jsnum \<Rightarrow> bool" where
  "js_gt coerce v n = num_gt (to_number coerce v) n"

text \<open>
  \<^verbatim>\<open>if (parsed.version === undefined) parsed.version = 0\<close>, giving the document and the version
  read from it afterwards. Reading a property of \<^verbatim>\<open>null\<close> throws; a boolean, a number or a
  string has no \<^verbatim>\<open>version\<close>, and the assignment to it throws in a module (strict code). An
  array takes the new property, which nothing reads but the comparison that follows.
\<close>

fun default_version :: "jsval \<Rightarrow> js_error + (jsval \<times> jsval)" where
  "default_version JUndefined = Inl TypeError"
| "default_version JNull = Inl TypeError"
| "default_version (JObj kvs) =
     (if js_get (JObj kvs) ''version'' = JUndefined
      then Inr (JObj (set_prop ''version'' (JNum (Fin 0)) kvs), JNum (Fin 0))
      else Inr (JObj kvs, js_get (JObj kvs) ''version''))"
| "default_version (JArr xs) = Inr (JArr xs, JNum (Fin 0))"
| "default_version v = Inl TypeError"

definition deserializeWorld :: "(jsval \<Rightarrow> jsnum) \<Rightarrow> wire \<Rightarrow> js_error + jsval" where
  "deserializeWorld coerce serialized =
     (case JSON_parse serialized of
        Inl e \<Rightarrow> Inl e
      | Inr parsed0 \<Rightarrow>
          (case default_version parsed0 of
             Inl e \<Rightarrow> Inl e
           | Inr (parsed, version) \<Rightarrow>
               if js_gt coerce version CURRENT_WORLD_SCHEMA_VERSION
               then Inl (FutureVersionError version)
               else
                 (case validateWorldDocument parsed of
                    Inl e \<Rightarrow> Inl e
                  | Inr validation \<Rightarrow>
                      if \<not> valid validation then Inl (InvalidDocumentError (errors validation))
                      else Inr (with_version parsed))))"

subsection \<open>Tree index\<close>

text \<open>
  \<^verbatim>\<open>updateNodeById\<close> compares objects by reference (\<^verbatim>\<open>nextNode !== node\<close>,
  \<^verbatim>\<open>node.children !== children\<close>), so every node object and every array of nodes carries its
  reference, and two of them are the same object when the references are equal. An object
  literal and \<^verbatim>\<open>Array.prototype.map\<close> allocate: the next free reference is passed along and
  returned. A node is a scene node as the data model types it: its id is a string, its
  other own fields are \<open>node_fields\<close>, and \<^verbatim>\<open>children\<close> is absent (\<open>None\<close>) or an array.
\<close>

datatype 'p node =
  Node (node_ref: nat) (node_id: string) (node_fields: 'p) (node_children: "(nat \<times> 'p node list) option")

type_synonym 'p forest = "nat \<times> 'p node list"

record 'p update_result =
  nodes :: "'p forest"
  changed :: bool

text \<open>
  The updater is a JavaScript function: it returns a value and it can change the object it is
  given. For a node, an updater gives a pair. The first component is the argument as the call
  leaves it: the same object (its reference is not looked at) with the id, the other fields
  and the children that it has when the call is over, the children array and the nodes below
  it in the state they have then. The second component is the value returned: a node object,
  or \<open>None\<close> for \<^verbatim>\<open>undefined\<close> and \<^verbatim>\<open>null\<close>, for which \<^verbatim>\<open>updater(node) ?? node\<close> takes the
  node itself. A returned object with the reference of the argument is the argument. An updater
  that changes nothing in place has its argument as the first component. What a call does to
  objects that cannot be reached from its argument, and a result that depends on more than the
  argument, are not modelled.

  \<open>argument_after\<close> is the object \<^verbatim>\<open>node\<close> and \<open>next_node\<close> the variable \<^verbatim>\<open>nextNode\<close> once
  \<^verbatim>\<open>if (node.id === id) { nextNode = updater(node) ?? node; ... }\<close> has run.
\<close>

type_synonym 'p updater = "'p node \<Rightarrow> 'p node \<times> 'p node option"

definition argument_after :: "'p node \<Rightarrow> string \<Rightarrow> 'p updater \<Rightarrow> 'p node" where
  "argument_after node ident updater =
     (if node_id node = ident
      then Node (node_ref node) (node_id (fst (updater node))) (node_fields (fst (updater node)))
             (node_children (fst (updater node)))
      else node)"








text \<open>
  What an update is to produce, references put aside: a tree keeps the id, the fields and the
  children of a node. In \<open>replaced\<close> a node whose id is the target takes the id and the fields
  of the object its updater returns, when that is another object, and else those that the
  updater has left it with; every node keeps its own children, replaced in the same way.
\<close>

datatype 'p tree = Tree string 'p "'p tree list option"



subsection \<open>Selection manager\<close>

text \<open>
  Ids are strings, and \<open>None\<close> is \<^verbatim>\<open>undefined\<close>. A \<^verbatim>\<open>Set\<close> is the list of its members in
  insertion order. \<open>truthy_id\<close> is the truthiness of \<^verbatim>\<open>this.focused\<close>.
\<close>

record selection_manager =
  selection :: "string option list"
  focused :: "string option"

definition set_add :: "'a \<Rightarrow> 'a list \<Rightarrow> 'a list" where
  "set_add x s = (if x \<in> set s then s else s @ [x])"

definition new_Set :: "'a list \<Rightarrow> 'a list" where
  "new_Set xs = foldl (\<lambda>s x. set_add x s) [] xs"

fun truthy_id :: "string option \<Rightarrow> bool" where
  "truthy_id None = False"
| "truthy_id (Some s) = (s \<noteq> [])"

text \<open>\<^verbatim>\<open>array[i]\<close>: \<^verbatim>\<open>undefined\<close> outside the array\<close>

definition js_nth :: "'a option list \<Rightarrow> int \<Rightarrow> 'a option" where
  "js_nth xs i = (if 0 \<le> i \<and> i < int (length xs) then xs ! nat i else None)"

text \<open>\<^verbatim>\<open>array.indexOf(x)\<close>\<close>

fun indexOf :: "string list \<Rightarrow> string \<Rightarrow> int" where
  "indexOf [] x = -1"
| "indexOf (y # ys) x = (if y = x then 0 else (let i = indexOf ys x in if i = -1 then -1 else i + 1))"

text \<open>The remainder operator \<^verbatim>\<open>%\<close> on integers: the result has the sign of the dividend\<close>

definition js_rem :: "int \<Rightarrow> int \<Rightarrow> int" where
  "js_rem a b = sgn a * (\<bar>a\<bar> mod \<bar>b\<bar>)"

text \<open>
  \<^verbatim>\<open>+\<close> on numbers that are integers. A number is an IEEE 754 double, which holds 53
  significant bits, and a sum is the double nearest to the exact sum, the one with the even
  significand when two are equally near. \<open>bit_length\<close> is the number of bits of a natural
  number and \<open>to_double\<close> the double nearest to an integer: the integer itself up to \<open>2^53\<close> in
  absolute value. The operands are integers that are doubles themselves, the current index, the
  direction and the length of the array; then the sum stays below the overflow to
  \<^verbatim>\<open>Infinity\<close>, which is not modelled. The remainder of two doubles is exact.
\<close>

fun bit_length :: "nat \<Rightarrow> nat" where
  "bit_length n = (if n = 0 then 0 else Suc (bit_length (n div 2)))"

definition to_double :: "int \<Rightarrow> int" where
  "to_double n =
     (let m = nat \<bar>n\<bar>;
          e = bit_length m - 53;
          q = m div 2 ^ e;
          r = m mod 2 ^ e;
          q' = (if 2 ^ e < 2 * r \<or> (2 * r = 2 ^ e \<and> odd q) then q + 1 else q)
      in sgn n * int (q' * 2 ^ e))"

definition js_add :: "int \<Rightarrow> int \<Rightarrow> int" where
  "js_add a b = to_double (a + b)"

definition getSelection :: "selection_manager \<Rightarrow> string option list" where
  "getSelection sm = selection sm"

definition setSelection ::
    "string list \<Rightarrow> bool \<Rightarrow> selection_manager \<Rightarrow> string option list \<times> selection_manager" where
  "setSelection ids focusLast sm =
     (let next = map Some ids;
          sm1 = sm\<lparr>selection := new_Set next\<rparr>;
          sm2 = (if focusLast then sm1\<lparr>focused := js_nth next (int (length next) - 1)\<rparr>
                 else if truthy_id (focused sm1) \<and> focused sm1 \<notin> set (selection sm1)
                   then sm1\<lparr>focused := js_nth next 0\<rparr>
                 else sm1)
      in (getSelection sm2, sm2))"

definition focusNext :: "string list \<Rightarrow> int \<Rightarrow> selection_manager \<Rightarrow> string option \<times> selection_manager" where
  "focusNext order direction sm =
     (if length order = 0 then (None, sm\<lparr>focused := None, selection := []\<rparr>)
      else
        let currentIndex = (if truthy_id (focused sm) then indexOf order (the (focused sm)) else -1);
            nextIndex = (if currentIndex = -1 then 0
                         else js_rem (js_add (js_add currentIndex direction) (int (length order)))
                                (int (length order)));
            nextId = js_nth (map Some order) nextIndex
        in (nextId, sm\<lparr>selection := new_Set [nextId], focused := nextId\<rparr>))"

subsection \<open>Mode manager\<close>

text \<open>
  The hooks of a context, the subscribers and the policies of the options are callbacks of the
  caller. A context records which hooks it has; every call of a callback is appended to a trace.
  \<^verbatim>\<open>hasUnsavedChanges\<close> and \<^verbatim>\<open>confirmSwitch\<close> are given by the value they return (the value
  the promise resolves to); \<^verbatim>\<open>await\<close> is the sequencing of one call of \<^verbatim>\<open>switchMode\<close>, with
  no other call running in between.
\<close>

record mode_context =
  has_activate :: bool
  has_deactivate :: bool
  has_dispose :: bool

datatype event =
    Created string
  | Activated string
  | Deactivated string
  | Notified nat string
  | AutoSaved
  | ConfirmAsked string string

record mode_options =
  createContext :: "string \<Rightarrow> mode_context"
  autoSave :: bool
  hasUnsavedChanges :: "jsval option"
  confirmSwitch :: "(string \<Rightarrow> string \<Rightarrow> jsval) option"

record mode_manager =
  options :: mode_options
  mode :: string
  contexts :: "(string \<times> mode_context) list"
  listeners :: "nat list"
  dirty :: bool
  trace :: "event list"

text \<open>\<^verbatim>\<open>this.options.hasUnsavedChanges?.() ?? this.dirty\<close>\<close>

definition isDirty :: "mode_manager \<Rightarrow> jsval" where
  "isDirty mm =
     (case hasUnsavedChanges (options mm) of
        None \<Rightarrow> JBool (dirty mm)
      | Some v \<Rightarrow> if v = JUndefined \<or> v = JNull then JBool (dirty mm) else v)"

definition clearDirty :: "mode_manager \<Rightarrow> mode_manager" where
  "clearDirty mm = mm\<lparr>dirty := False\<rparr>"

definition createOrGetContext :: "string \<Rightarrow> mode_manager \<Rightarrow> mode_context \<times> mode_manager" where
  "createOrGetContext m mm =
     (case map_of (contexts mm) m of
        Some existing \<Rightarrow> (existing, mm)
      | None \<Rightarrow>
          let ctx = createContext (options mm) m
          in (ctx, mm\<lparr>contexts := contexts mm @ [(m, ctx)], trace := trace mm @ [Created m]\<rparr>))"

definition handleUnsavedChanges :: "string \<Rightarrow> mode_manager \<Rightarrow> jsval \<times> mode_manager" where
  "handleUnsavedChanges target mm =
     (if \<not> truthy (isDirty mm) then (JBool True, mm)
      else if autoSave (options mm)
        then (JBool True, clearDirty (mm\<lparr>trace := trace mm @ [AutoSaved]\<rparr>))
      else
        (case confirmSwitch (options mm) of
           Some confirm \<Rightarrow>
             let ok = confirm (mode mm) target;
                 mm1 = mm\<lparr>trace := trace mm @ [ConfirmAsked (mode mm) target]\<rparr>
             in (ok, if truthy ok then clearDirty mm1 else mm1)
         | None \<Rightarrow> (JBool True, mm)))"

definition switchMode :: "string \<Rightarrow> mode_manager \<Rightarrow> bool \<times> mode_manager" where
  "switchMode target mm =
     (if target = mode mm then (True, mm)
      else
        let previous = map_of (contexts mm) (mode mm) in
        case createOrGetContext target mm of
          (next, mm1) \<Rightarrow>
            (case handleUnsavedChanges target mm1 of
               (canSwitch, mm2) \<Rightarrow>
                 if \<not> truthy canSwitch then (False, mm2)
                 else
                   let mm3 = (case previous of
                                Some ctx \<Rightarrow> if has_deactivate ctx
                                            then mm2\<lparr>trace := trace mm2 @ [Deactivated (mode mm2)]\<rparr>
                                            else mm2
                              | None \<Rightarrow> mm2);
                       mm4 = (if has_activate next
                              then mm3\<lparr>trace := trace mm3 @ [Activated target]\<rparr> else mm3);
                       mm5 = mm4\<lparr>mode := target\<rparr>
                   in (True, mm5\<lparr>trace := trace mm5 @ map (\<lambda>l. Notified l target) (listeners mm5)\<rparr>)))"

text \<open>The events in which a hook of a context runs or a subscriber is called\<close>

fun fires :: "event \<Rightarrow> bool" where
  "fires (Activated m) = True"
| "fires (Deactivated m) = True"
| "fires (Notified l m) = True"
| "fires e = False"

text \<open>
  The values that a JSON text holds as they are: no \<^verbatim>\<open>undefined\<close>, and no number that is
  not finite or is negative zero, at any depth
\<close>

fun json_safe :: "jsval \<Rightarrow> bool"
  and json_safe_elems :: "jsval list \<Rightarrow> bool"
  and json_safe_props :: "(string \<times> jsval) list \<Rightarrow> bool"
where
  "json_safe JUndefined = False"
| "json_safe JNull = True"
| "json_safe (JBool b) = True"
| "json_safe (JNum n) = (case n of Fin q \<Rightarrow> True | _ \<Rightarrow> False)"
| "json_safe (JStr s) = True"
| "json_safe (JArr xs) = json_safe_elems xs"
| "json_safe (JObj kvs) = json_safe_props kvs"
| "json_safe_elems [] = True"
| "json_safe_elems (x # xs) = (json_safe x \<and> json_safe_elems xs)"
| "json_safe_props [] = True"
| "json_safe_props (kv # kvs) = (json_safe (snd kv) \<and> json_safe_props kvs)"

text \<open>
  A conversion for closed examples; none of them has a version that is a string, an array or
  an object, so it is never consulted.
\<close>

definition nan_coercion :: "jsval \<Rightarrow> jsnum" where
  "nan_coercion v = NaN"

text \<open>Sample documents\<close>

definition undefined_entry_world :: jsval where
  "undefined_entry_world =
     JObj [(''metadata'', JObj [(''notes'', JArr [JUndefined])]), (''nodes'', JArr [])]"

definition null_asset_world :: jsval where
  "null_asset_world =
     JObj [(''assets'', JArr [JNull]),
           (''nodes'', JArr [JObj [(''id'', JStr ''a''),
                                   (''asset'', JObj [(''assetId'', JStr ''x'')])]])]"

definition duplicate_ids_forest :: "jsval list" where
  "duplicate_ids_forest =
     [JObj [(''id'', JStr ''x''), (''children'', JArr [JObj [(''id'', JStr ''y'')]])],
      JObj [(''id'', JStr ''z''), (''children'', JArr [JObj [(''id'', JStr ''x'')]])]]"

definition duplicate_ids_world :: jsval where
  "duplicate_ids_world = JObj [(''nodes'', JArr duplicate_ids_forest)]"

definition asset_refs_forest :: "jsval list" where
  "asset_refs_forest =
     [JObj [(''id'', JStr ''a''), (''asset'', JObj [(''assetId'', JStr ''hero'')])],
      JObj [(''id'', JStr ''b''), (''asset'', JObj [(''assetId'', JStr ''missing'')])]]"

definition asset_refs_world :: jsval where
  "asset_refs_world =
     JObj [(''assets'', JArr [JObj [(''id'', JStr ''hero''), (''uri'', JStr [])], JNum (Fin 7)]),
           (''nodes'', JArr asset_refs_forest)]"

definition demo_world :: jsval where
  "demo_world =
     JObj [(''version'', JNum (Fin 7)),
           (''metadata'', JObj [(''title'', JStr ''Demo Park'')]),
           (''assets'', JArr [JObj [(''id'', JStr ''hero-tree''), (''uri'', JStr ''/assets/tree.gltf''),
                                    (''type'', JStr ''gltf'')]]),
           (''nodes'', JArr [JObj [(''id'', JStr ''root''), (''name'', JStr ''World root''),
                                   (''tags'', JArr [JStr ''scene'']),
                                   (''children'',
                                    JArr [JObj [(''id'', JStr ''tree-1''),
                                                (''asset'', JObj [(''assetId'', JStr ''hero-tree'')]),
                                                (''transform'',
                                                 JObj [(''position'',
                                                        JObj [(''x'', JNum (Fin (- 4))),
                                                              (''y'', JNum (Fin 0)),
                                                              (''z'', JNum (Fin 2))])])]])]])]"






text \<open>
  A mode manager in edit mode with two subscribers, whose dirty check reports unsaved changes,
  with no autosave policy and a confirm policy that resolves to \<^verbatim>\<open>false\<close>
\<close>

definition blocking_options :: mode_options where
  "blocking_options = \<lparr>createContext = (\<lambda>m. \<lparr>has_activate = True, has_deactivate = True, has_dispose = False\<rparr>),
     autoSave = False, hasUnsavedChanges = Some (JBool True), confirmSwitch = Some (\<lambda>current target. JBool False)\<rparr>"

definition editing :: mode_manager where
  "editing = \<lparr>options = blocking_options, mode = ''edit'',
     contexts = [(''edit'', \<lparr>has_activate = True, has_deactivate = True, has_dispose = False\<rparr>)],
     listeners = [0, 1], dirty = False, trace = [Created ''edit'', Activated ''edit'', Notified 0 ''edit'', Notified 1 ''edit'']\<rparr>"

section \<open>Properties\<close>

subsection \<open>Validator\<close>

lemma ends_with_append: "ends_with tail (xs @ tail)"
  by (simp add: ends_with_def)

lemma ends_with_last: "ends_with tail e \<Longrightarrow> tail \<noteq> [] \<Longrightarrow> last e = last tail"
  by (metis ends_with_def append_take_drop_id last_appendR)

lemma about_nodes_append: "about_nodes p \<Longrightarrow> about_nodes (p @ s)"
proof -
  assume a: "about_nodes p"
  then have "length (take 5 p) = 5" by (simp add: about_nodes_def)
  then have "5 \<le> length p" by simp
  with a show ?thesis by (simp add: about_nodes_def)
qed

lemma plain_not_unique: "plain e \<Longrightarrow> \<not> is_node_uniqueness_error e"
  using ends_with_last [of "apostrophe @ '' must be unique''" e]
  by (auto simp: plain_def is_node_uniqueness_error_def apostrophe_def)

lemma plain_not_missing: "plain e \<Longrightarrow> \<not> is_missing_asset_error e"
  using ends_with_last [of apostrophe e]
  by (auto simp: plain_def is_missing_asset_error_def apostrophe_def)

lemma filter_plain:
  assumes "\<forall>e \<in> set es. plain e"
  shows "filter is_node_uniqueness_error es = []" "filter is_missing_asset_error es = []"
  using assms plain_not_unique plain_not_missing by (auto simp: filter_empty_conv)

lemma plain_tail: "plain (p @ c # cs) = plain (c # cs)"
  by (simp add: plain_def)

lemma plain_Cons: "plain (c # cs) = (last (c # cs) \<noteq> CHR ''e'' \<and> last (c # cs) \<noteq> CHR 0x27)"
  by (simp add: plain_def)

lemmas plain_simps = plain_tail plain_Cons

lemma plain_validateVector3: "\<forall>e \<in> set (validateVector3 v path). plain e"
  by (auto simp: plain_simps)

lemma plain_validateQuaternion: "\<forall>e \<in> set (validateQuaternion v path). plain e"
  by (auto simp: plain_simps)

lemma plain_validateTransform: "\<forall>e \<in> set (validateTransform v path). plain e"
proof -
  note sub = plain_validateVector3 [of "js_get v ''position''" "path @ ''.position''"]
    plain_validateQuaternion [of "js_get v ''rotation''" "path @ ''.rotation''"]
    plain_validateVector3 [of "js_get v ''scale''" "path @ ''.scale''"]
  show ?thesis using sub
    by (auto simp: plain_simps simp del: validateVector3.simps validateQuaternion.simps)
qed

lemma plain_validateComponent: "\<forall>e \<in> set (validateComponent c path). plain e"
  by (auto simp: plain_simps)

lemma plain_validateComponents: "\<forall>e \<in> set (validateComponents cs index path). plain e"
proof (induction cs index path rule: validateComponents.induct)
  case (1 index path)
  show ?case by simp
next
  case (2 component rest index path)
  with plain_validateComponent [of component "path @ ''.components['' @ show_nat index @ '']''"]
  show ?case by (auto simp del: validateComponent.simps)
qed

lemma plain_validateNodeName: "\<forall>e \<in> set (validateNodeName node path). plain e"
  by (auto simp: plain_simps)

lemma plain_validateNodeTags: "\<forall>e \<in> set (validateNodeTags node path). plain e"
  by (auto simp: plain_simps split: jsval.splits)

lemma plain_validateNodeComponents: "\<forall>e \<in> set (validateNodeComponents node path). plain e"
  using plain_validateComponents by (auto simp: plain_simps split: jsval.splits)

lemma plain_validateNodeFields: "\<forall>e \<in> set (validateNodeFields node path). plain e"
  using plain_validateTransform [of "js_get node ''transform''" "path @ ''.transform''"]
        plain_validateNodeName [of node path] plain_validateNodeTags [of node path]
        plain_validateNodeComponents [of node path]
  unfolding validateNodeFields_def
  by (auto simp del: validateTransform.simps validateNodeName.simps validateNodeTags.simps
        validateNodeComponents.simps)


lemma ends_with_appendI: "ends_with tail b \<Longrightarrow> ends_with tail (a @ b)"
  by (auto simp: ends_with_def)

lemma unique_message_is_unique:
  "about_nodes (fst occ) \<Longrightarrow> is_node_uniqueness_error (unique_message occ)"
proof -
  assume "about_nodes (fst occ)"
  then have "about_nodes (unique_message occ)"
    unfolding unique_message_def by (rule about_nodes_append)
  moreover have "ends_with (apostrophe @ '' must be unique'')
                   ((fst occ @ ''.id '' @ apostrophe @ snd occ) @ (apostrophe @ '' must be unique''))"
    by (rule ends_with_append)
  ultimately show ?thesis by (simp add: is_node_uniqueness_error_def unique_message_def)
qed

lemma unique_message_not_missing: "\<not> is_missing_asset_error (unique_message occ)"
  using ends_with_last [of apostrophe "unique_message occ"]
  by (auto simp: is_missing_asset_error_def unique_message_def apostrophe_def)

lemma missing_message_is_missing:
  "about_nodes (fst occ) \<Longrightarrow> is_missing_asset_error (missing_message occ)"
proof -
  assume "about_nodes (fst occ)"
  then have "about_nodes (missing_message occ)"
    unfolding missing_message_def by (rule about_nodes_append)
  moreover have "ends_with apostrophe
      ((fst occ @ ''.asset.assetId references missing asset '' @ apostrophe @ snd occ) @ apostrophe)"
    by (rule ends_with_append)
  ultimately show ?thesis by (simp add: is_missing_asset_error_def missing_message_def)
qed

lemma missing_message_not_unique: "\<not> is_node_uniqueness_error (missing_message occ)"
  using ends_with_last [of "apostrophe @ '' must be unique''" "missing_message occ"]
  by (auto simp: is_node_uniqueness_error_def missing_message_def apostrophe_def)

lemma repeats_append:
  "repeats (xs @ ys) seen = repeats xs seen @ repeats ys (seen \<union> snd ` set xs)"
  by (induction xs arbitrary: seen) (auto simp: insert_absorb)

lemma node_ids_append: "node_ids (xs @ ys) = node_ids xs @ node_ids ys"
  by (induction xs) (auto split: jsval.splits)

lemma unresolved_append: "unresolved assets (xs @ ys) = unresolved assets xs @ unresolved assets ys"
  by (induction xs) (auto split: jsval.splits)

lemma validateNodeId_summary:
  assumes "about_nodes path"
  shows "snd (validateNodeId node path seen) = seen \<union> snd ` set (node_ids [(path, node)])"
    and "filter is_node_uniqueness_error (fst (validateNodeId node path seen))
           = map unique_message (repeats (node_ids [(path, node)]) seen)"
    and "filter is_missing_asset_error (fst (validateNodeId node path seen)) = []"
proof -
  have p: "plain (path @ ''.id must be a non-empty string'')" by (simp add: plain_simps)
  note np = plain_not_unique [OF p] plain_not_missing [OF p]
  have um: "path @ ''.id '' @ apostrophe @ x @ apostrophe @ '' must be unique'' = unique_message (path, x)" for x
    by (simp add: unique_message_def)
  have u: "is_node_uniqueness_error (unique_message (path, x))" for x
    using assms by (simp add: unique_message_is_unique)
  have m: "\<not> is_missing_asset_error (unique_message (path, x))" for x
    by (rule unique_message_not_missing)
  show "snd (validateNodeId node path seen) = seen \<union> snd ` set (node_ids [(path, node)])"
    by (auto split: jsval.splits)
  show "filter is_node_uniqueness_error (fst (validateNodeId node path seen))
           = map unique_message (repeats (node_ids [(path, node)]) seen)"
    using np u unfolding validateNodeId.simps um
    by (auto split: jsval.splits)
  show "filter is_missing_asset_error (fst (validateNodeId node path seen)) = []"
    using np m unfolding validateNodeId.simps um
    by (auto split: jsval.splits)
qed

lemma find_asset_found:
  "find_asset assets a = Inr found \<Longrightarrow>
     (\<not> truthy found) = list_all (\<lambda>asset. js_get asset ''id'' \<noteq> JStr a) assets"
proof (induction assets)
  case Nil
  then show ?case by auto
next
  case (Cons asset rest)
  show ?case
  proof (cases "js_get asset ''id'' = JStr a")
    case True
    then obtain kvs where "asset = JObj kvs" by (cases asset) auto
    with True Cons.prems show ?thesis by auto
  next
    case False
    with Cons show ?thesis by (cases asset) (auto split: if_splits)
  qed
qed

lemma js_get_absent: "\<not> js_in k node \<Longrightarrow> js_get node k = JUndefined"
proof (cases node)
  case (JObj kvs)
  assume "\<not> js_in k node"
  with JObj have "map_of kvs k = None" by (simp add: map_of_eq_None_iff)
  with JObj show ?thesis by simp
qed simp_all

lemma validateNodeAsset_summary:
  assumes "about_nodes path" and "validateNodeAsset node path assets = Inr es"
  shows "filter is_node_uniqueness_error es = []"
    and "filter is_missing_asset_error es
           = map missing_message (unresolved (case assets of None \<Rightarrow> [] | Some a \<Rightarrow> a) [(path, node)])"
proof -
  let ?A = "case assets of None \<Rightarrow> [] | Some a \<Rightarrow> a"
  let ?ref = "js_get node ''asset''"
  have p1: "plain ((path @ ''.asset'') @ '' must be an object'')"
    and p2: "plain ((path @ ''.asset'') @ ''.options must be an object when present'')"
    and p3: "plain ((path @ ''.asset'') @ ''.assetId must be a non-empty string'')"
    by (simp_all add: plain_simps)
  note np = plain_not_unique [OF p1] plain_not_missing [OF p1] plain_not_unique [OF p2]
    plain_not_missing [OF p2] plain_not_unique [OF p3] plain_not_missing [OF p3]
  have mm: "(path @ ''.asset'') @ ''.assetId references missing asset '' @ apostrophe @ a @ apostrophe
              = missing_message (path, a)" for a
    by (simp add: missing_message_def)
  have m: "is_missing_asset_error (missing_message (path, a))" for a
    using assms(1) by (simp add: missing_message_is_missing)
  have u: "\<not> is_node_uniqueness_error (missing_message (path, a))" for a
    by (rule missing_message_not_unique)
  show "filter is_node_uniqueness_error es = []"
  proof (cases "js_in ''asset'' node")
    case False
    with assms(2) show ?thesis by (simp add: validateNodeAsset_def)
  next
    case True
    with assms(2) have v: "validateNodeAssetReference ?ref (path @ ''.asset'') assets = Inr es"
      by (simp add: validateNodeAsset_def)
    show ?thesis using v np u unfolding validateNodeAssetReference.simps mm Let_def
      by (auto split: if_splits jsval.splits sum.splits)
  qed
  show "filter is_missing_asset_error es = map missing_message (unresolved ?A [(path, node)])"
  proof (cases "js_in ''asset'' node")
    case False
    then have "?ref = JUndefined" by (rule js_get_absent)
    with False assms(2) show ?thesis by (simp add: validateNodeAsset_def)
  next
    case True
    with assms(2) have v: "validateNodeAssetReference ?ref (path @ ''.asset'') assets = Inr es"
      by (simp add: validateNodeAsset_def)
    show ?thesis
    proof (cases "isObject ?ref")
      case False
      then have "js_get ?ref ''assetId'' = JUndefined" by (cases ?ref) auto
      with False v np show ?thesis by auto
    next
      case obj: True
      show ?thesis
      proof (cases "js_get ?ref ''assetId''")
        case (JStr a)
        show ?thesis
        proof (cases "is_blank a")
          case True
          with obj JStr v np show ?thesis by (auto split: if_splits)
        next
          case False
          from v obj JStr False obtain found where f: "find_asset ?A a = Inr found"
            by (auto simp: Let_def split: sum.splits)
          note fa = find_asset_found [OF f]
          show ?thesis using v obj JStr False f fa np m
            unfolding validateNodeAssetReference.simps mm Let_def
            by (auto split: if_splits)
        qed
      qed (use obj v np in \<open>auto split: if_splits\<close>)
    qed
  qed
qed


lemma js_get_present: "js_get node k = JArr xs \<Longrightarrow> js_in k node"
  using js_get_absent [of k node] by auto

lemma validateSceneNode_inner:
  assumes "isObject node" and "validateNodeAsset node path assets = Inr ae"
    and "js_get node ''children'' = JArr children"
  shows "validateSceneNode node path assets seen =
     (case validateSceneNodes children 0 (path @ ''.children'') assets
             (snd (validateNodeId node path seen)) of
        Inl e \<Rightarrow> Inl e
      | Inr (childErrors, seen2) \<Rightarrow>
          Inr ((fst (validateNodeId node path seen) @ validateNodeFields node path @ ae)
                 @ childErrors, seen2))"
proof -
  from assms(3) have "js_in ''children'' node" by (rule js_get_present)
  with assms show ?thesis
    by (simp add: validateSceneNode.simps Let_def case_prod_beta del: validateNodeId.simps)
qed

lemma validateSceneNode_leaf:
  assumes "isObject node" and "validateNodeAsset node path assets = Inr ae"
    and "\<forall>children. js_get node ''children'' \<noteq> JArr children"
  shows "validateSceneNode node path assets seen =
     Inr ((fst (validateNodeId node path seen) @ validateNodeFields node path @ ae)
            @ (if js_in ''children'' node
               then [path @ ''.children must be an array when present''] else []),
          snd (validateNodeId node path seen))"
  using assms
  by (cases "js_get node ''children''")
     (simp_all add: validateSceneNode.simps Let_def case_prod_beta del: validateNodeId.simps)

lemma validateSceneNode_throws:
  "isObject node \<Longrightarrow> validateNodeAsset node path assets = Inl e \<Longrightarrow>
     validateSceneNode node path assets seen = Inl e"
  by (simp add: validateSceneNode.simps case_prod_beta del: validateNodeId.simps)

lemma scene_node_inner:
  "isObject node \<Longrightarrow> js_get node ''children'' = JArr children \<Longrightarrow>
     scene_node node path = [(path, node)] @ scene_nodes children 0 (path @ ''.children'')"
  by (simp add: scene_node.simps)

lemma scene_node_leaf:
  "isObject node \<Longrightarrow> \<forall>children. js_get node ''children'' \<noteq> JArr children \<Longrightarrow>
     scene_node node path = [(path, node)]"
  by (cases "js_get node ''children''") (simp_all add: scene_node.simps)

lemma scene_summary:
  "about_nodes path \<Longrightarrow> validateSceneNode node path assets seen = Inr (es, seen') \<Longrightarrow>
     seen' = seen \<union> snd ` set (node_ids (scene_node node path))
     \<and> filter is_node_uniqueness_error es
         = map unique_message (repeats (node_ids (scene_node node path)) seen)
     \<and> filter is_missing_asset_error es
         = map missing_message
             (unresolved (case assets of None \<Rightarrow> [] | Some a \<Rightarrow> a) (scene_node node path))"
  "about_nodes prefix \<Longrightarrow> validateSceneNodes ns index prefix assets seen = Inr (es, seen') \<Longrightarrow>
     seen' = seen \<union> snd ` set (node_ids (scene_nodes ns index prefix))
     \<and> filter is_node_uniqueness_error es
         = map unique_message (repeats (node_ids (scene_nodes ns index prefix)) seen)
     \<and> filter is_missing_asset_error es
         = map missing_message
             (unresolved (case assets of None \<Rightarrow> [] | Some a \<Rightarrow> a) (scene_nodes ns index prefix))"
proof (induction node path and ns index prefix arbitrary: seen es seen' and seen es seen'
       rule: scene_node_scene_nodes.induct)
  case (1 node path)
  let ?A = "case assets of None \<Rightarrow> [] | Some a \<Rightarrow> a"
  show ?case
  proof (cases "isObject node")
    case False
    have "plain (path @ '' must be an object'')" by (simp add: plain_simps)
    then have "\<not> is_node_uniqueness_error (path @ '' must be an object'')"
      "\<not> is_missing_asset_error (path @ '' must be an object'')"
      by (simp_all add: plain_not_unique plain_not_missing)
    with False "1.prems"(2) show ?thesis
      by (auto simp: validateSceneNode.simps scene_node.simps)
  next
    case True
    obtain ae where ae: "validateNodeAsset node path assets = Inr ae"
      using "1.prems"(2) validateSceneNode_throws [OF True, of path assets _ seen]
      by (cases "validateNodeAsset node path assets") auto
    define idErrors where "idErrors = fst (validateNodeId node path seen)"
    define seen1 where "seen1 = snd (validateNodeId node path seen)"
    define own where "own = idErrors @ validateNodeFields node path @ ae"
    define here where "here = node_ids [(path, node)]"
    note ids = validateNodeId_summary [OF "1.prems"(1), of node seen,
        folded idErrors_def seen1_def here_def]
    note ast = validateNodeAsset_summary [OF "1.prems"(1) ae]
    note fld = filter_plain [OF plain_validateNodeFields [of node path]]
    have own_u: "filter is_node_uniqueness_error own = map unique_message (repeats here seen)"
      using ids(2) ast(1) fld(1) by (simp add: own_def)
    have own_m: "filter is_missing_asset_error own = map missing_message (unresolved ?A [(path, node)])"
      using ids(3) ast(2) fld(2) by (simp add: own_def)
    show ?thesis
    proof (cases "\<exists>children. js_get node ''children'' = JArr children")
      case True
      then obtain children where ch: "js_get node ''children'' = JArr children" by blast
      note unf = validateSceneNode_inner [OF \<open>isObject node\<close> ae ch, of seen,
          folded idErrors_def seen1_def, folded own_def]
      from "1.prems"(2) unf obtain ce where
        sub: "validateSceneNodes children 0 (path @ ''.children'') assets seen1 = Inr (ce, seen')"
        and es: "es = own @ ce"
        by (auto split: sum.splits)
      have an: "about_nodes (path @ ''.children'')"
        using "1.prems"(1) by (rule about_nodes_append)
      have IH: "seen' = seen1 \<union> snd ` set (node_ids (scene_nodes children 0 (path @ ''.children'')))
        \<and> filter is_node_uniqueness_error ce
           = map unique_message (repeats (node_ids (scene_nodes children 0 (path @ ''.children''))) seen1)
        \<and> filter is_missing_asset_error ce
           = map missing_message (unresolved ?A (scene_nodes children 0 (path @ ''.children'')))"
        using "1.IH" [OF _ ch an sub] \<open>isObject node\<close> by simp
      show ?thesis
        unfolding scene_node_inner [OF \<open>isObject node\<close> ch] node_ids_append repeats_append
          unresolved_append es filter_append map_append
        using IH own_u own_m ids(1) by (simp add: Un_assoc image_Un here_def [symmetric] del: node_ids.simps unresolved.simps)
    next
      case False
      then have nc: "\<forall>children. js_get node ''children'' \<noteq> JArr children" by blast
      note unf = validateSceneNode_leaf [OF \<open>isObject node\<close> ae nc, of seen,
          folded idErrors_def seen1_def, folded own_def]
      have p: "plain (path @ ''.children must be an array when present'')" by (simp add: plain_simps)
      from "1.prems"(2) unf have es: "es = own @ (if js_in ''children'' node
               then [path @ ''.children must be an array when present''] else [])"
        and s: "seen' = seen1"
        by simp_all
      show ?thesis
        unfolding scene_node_leaf [OF \<open>isObject node\<close> nc] es s filter_append
        using own_u own_m ids(1) plain_not_unique [OF p] plain_not_missing [OF p]
        by (simp add: here_def [symmetric] del: node_ids.simps unresolved.simps)
    qed
  qed
next
  case (2 index prefix)
  then show ?case by simp
next
  case (3 node rest index prefix)
  let ?path = "prefix @ ''['' @ show_nat index @ '']''"
  from "3.prems"(2) obtain e1 s1 e2 where
    a: "validateSceneNode node ?path assets seen = Inr (e1, s1)"
    and b: "validateSceneNodes rest (Suc index) prefix assets s1 = Inr (e2, seen')"
    and es: "es = e1 @ e2"
    by (auto split: sum.splits)
  have an: "about_nodes ?path" using "3.prems"(1) by (rule about_nodes_append)
  note A = "3.IH"(1) [OF an a]
  note B = "3.IH"(2) [OF "3.prems"(1) b]
  show ?case
    unfolding scene_nodes.simps node_ids_append repeats_append unresolved_append es
    using A B by (simp add: Un_assoc image_Un)
qed

lemma asset_entry_prefix:
  "e \<in> set (fst (validateAssetEntry asset assetPath seen)) \<Longrightarrow> take (length assetPath) e = assetPath"
  by (auto simp: Let_def split: if_splits jsval.splits)

lemma asset_entries_prefix:
  "e \<in> set (validateAssetEntries assets index path seen) \<Longrightarrow> take (length path) e = path"
proof (induction assets index path seen rule: validateAssetEntries.induct)
  case (1 index path seen)
  then show ?case by simp
next
  case (2 asset rest index path seen)
  obtain es s1 where ve: "validateAssetEntry asset (path @ ''['' @ show_nat index @ '']'') seen = (es, s1)"
    by (metis prod.collapse)
  from "2.prems" ve consider "e \<in> set es" | "e \<in> set (validateAssetEntries rest (Suc index) path s1)"
    by (auto simp del: validateAssetEntry.simps)
  then show ?case
  proof cases
    case 1
    with asset_entry_prefix [of e asset "path @ ''['' @ show_nat index @ '']''" seen] ve
    have "take (length (path @ ''['' @ show_nat index @ '']'')) e = path @ ''['' @ show_nat index @ '']''"
      by (simp del: validateAssetEntry.simps)
    then have "take (length path) (take (length (path @ ''['' @ show_nat index @ '']'')) e) = path"
      by simp
    then show ?thesis by (simp add: min_def)
  next
    case 2
    with "2.IH" [OF ve [symmetric]] show ?thesis by simp
  qed
qed

lemma asset_errors_not_about_nodes:
  "e \<in> set (fst (validateAssets v ''assets'')) \<Longrightarrow> \<not> about_nodes e"
proof -
  assume a: "e \<in> set (fst (validateAssets v ''assets''))"
  have "take 6 e = ''assets''"
  proof (cases v)
    case (JArr assets)
    with a asset_entries_prefix [of e assets 0 "''assets''" "{}"] show ?thesis
      by (simp add: eval_nat_numeral)
  qed (use a in auto)
  then have "take 5 (take 6 e) = ''asset''" by simp
  then show ?thesis by (simp add: about_nodes_def)
qed

lemma asset_errors_filtered:
  "filter is_node_uniqueness_error (fst (validateAssets v ''assets'')) = []"
  "filter is_missing_asset_error (fst (validateAssets v ''assets'')) = []"
  using asset_errors_not_about_nodes [of _ v]
  by (auto simp: filter_empty_conv is_node_uniqueness_error_def is_missing_asset_error_def)

lemma asset_context: "(case snd (validateAssets (js_get doc ''assets'') ''assets'') of None \<Rightarrow> [] | Some a \<Rightarrow> a) = asset_list doc"
  by (cases "js_get doc ''assets''") (simp_all add: asset_list_def)

lemma validateWorldDocument_nodes:
  assumes "js_get doc ''nodes'' = JArr forest" and "validateWorldDocument doc = Inr r"
  obtains nodeErrors seen where
    "validateSceneNodes forest 0 ''nodes'' (snd (validateAssets (js_get doc ''assets'') ''assets'')) {}
       = Inr (nodeErrors, seen)"
    and "errors r = fst (validateAssets (js_get doc ''assets'') ''assets'') @ nodeErrors"
    and "valid r = (errors r = [])"
proof -
  from assms(1) have obj: "isObject doc" by (cases doc) auto
  with assms show ?thesis
    by (auto simp: validateWorldDocument_def case_prod_beta split: sum.splits intro!: that)
qed

lemma doc_summary:
  assumes "js_get doc ''nodes'' = JArr forest" and "validateWorldDocument doc = Inr r"
  shows "filter is_node_uniqueness_error (errors r)
           = map unique_message (repeats (node_ids (scene_nodes forest 0 ''nodes'')) {})"
    and "filter is_missing_asset_error (errors r)
           = map missing_message (unresolved (asset_list doc) (scene_nodes forest 0 ''nodes''))"
    and "valid r = (errors r = [])"
proof -
  from assms obtain nodeErrors seen where
    v: "validateSceneNodes forest 0 ''nodes'' (snd (validateAssets (js_get doc ''assets'') ''assets'')) {}
       = Inr (nodeErrors, seen)"
    and e: "errors r = fst (validateAssets (js_get doc ''assets'') ''assets'') @ nodeErrors"
    and ok: "valid r = (errors r = [])"
    by (rule validateWorldDocument_nodes)
  have an: "about_nodes ''nodes''" by (simp add: about_nodes_def)
  note s = scene_summary(2) [OF an v, unfolded asset_context]
  from s show "filter is_node_uniqueness_error (errors r)
           = map unique_message (repeats (node_ids (scene_nodes forest 0 ''nodes'')) {})"
    by (simp add: e asset_errors_filtered)
  from s show "filter is_missing_asset_error (errors r)
           = map missing_message (unresolved (asset_list doc) (scene_nodes forest 0 ''nodes''))"
    by (simp add: e asset_errors_filtered)
  show "valid r = (errors r = [])" by (rule ok)
qed

lemma repeats_later:
  "j < length visits \<Longrightarrow> js_get (snd (visits ! j)) ''id'' = JStr x \<Longrightarrow> \<not> is_blank x \<Longrightarrow>
   x \<in> seen \<or> (\<exists>i<j. js_get (snd (visits ! i)) ''id'' = JStr x) \<Longrightarrow>
   (fst (visits ! j), x) \<in> set (repeats (node_ids visits) seen)"
proof (induction visits arbitrary: j seen)
  case Nil
  then show ?case by simp
next
  case (Cons v rest)
  show ?case
  proof (cases j)
    case 0
    with Cons.prems show ?thesis by simp
  next
    case (Suc k)
    with Cons.prems have k: "k < length rest" and idk: "js_get (snd (rest ! k)) ''id'' = JStr x"
      by simp_all
    have step: "(fst (rest ! k), x) \<in> set (repeats (node_ids rest) seen')"
      if "x \<in> seen' \<or> (\<exists>i<k. js_get (snd (rest ! i)) ''id'' = JStr x)" for seen'
      using Cons.IH [OF k idk Cons.prems(3) that] .
    have "x \<in> seen \<or> js_get (snd v) ''id'' = JStr x
            \<or> (\<exists>i<k. js_get (snd (rest ! i)) ''id'' = JStr x)"
    proof (rule disjE [OF Cons.prems(4)])
      assume "x \<in> seen"
      then show ?thesis by simp
    next
      assume "\<exists>i<j. js_get (snd ((v # rest) ! i)) ''id'' = JStr x"
      then obtain i where i: "i < j" "js_get (snd ((v # rest) ! i)) ''id'' = JStr x" by blast
      show ?thesis
      proof (cases i)
        case 0
        with i show ?thesis by simp
      next
        case (Suc i')
        with i \<open>j = Suc k\<close> have "i' < k" "js_get (snd (rest ! i')) ''id'' = JStr x" by simp_all
        then show ?thesis by blast
      qed
    qed
    then consider (seen) "x \<in> seen" | (head) "js_get (snd v) ''id'' = JStr x"
      | (tail) "\<exists>i<k. js_get (snd (rest ! i)) ''id'' = JStr x"
      by blast
    then show ?thesis
    proof cases
      case seen
      then have "(fst (rest ! k), x) \<in> set (repeats (node_ids rest) seen)"
        "(fst (rest ! k), x) \<in> set (repeats (node_ids rest) (insert y seen))" for y
        using step by simp_all
      then show ?thesis using Suc by (auto split: jsval.splits)
    next
      case head
      have "(fst (rest ! k), x) \<in> set (repeats (node_ids rest) (insert x seen))"
        using step by simp
      moreover have "(fst (rest ! k), x) \<in> set (repeats (node_ids rest) seen)" if "x \<in> seen"
        using step that by simp
      ultimately show ?thesis using Suc head Cons.prems(3) by auto
    next
      case tail
      then have "(fst (rest ! k), x) \<in> set (repeats (node_ids rest) seen')" for seen'
        using step by simp
      then show ?thesis using Suc by (auto split: jsval.splits)
    qed
  qed
qed

lemma repeats_count:
  "finite seen \<Longrightarrow> length (repeats ids seen) = length ids - card (snd ` set ids - seen)"
proof (induction ids arbitrary: seen)
  case Nil
  then show ?case by simp
next
  case (Cons occ rest)
  have le: "card (snd ` set rest - s) \<le> length rest" for s
    by (meson card_image_le card_length card_mono finite_imageI finite_set Diff_subset le_trans List.finite_set)
  show ?case
  proof (cases "snd occ \<in> seen")
    case True
    then have "snd ` set (occ # rest) - seen = snd ` set rest - seen" by auto
    with True Cons le [of seen] show ?thesis by simp
  next
    case False
    then have "snd ` set (occ # rest) - seen = insert (snd occ) (snd ` set rest - insert (snd occ) seen)"
      by auto
    moreover have "snd occ \<notin> snd ` set rest - insert (snd occ) seen" by simp
    ultimately have "card (snd ` set (occ # rest) - seen) = Suc (card (snd ` set rest - insert (snd occ) seen))"
      by simp
    with False Cons.IH [of "insert (snd occ) seen"] Cons.prems show ?thesis by simp
  qed
qed

lemma unresolved_member:
  "(path, node) \<in> set visits \<Longrightarrow> js_get (js_get node ''asset'') ''assetId'' = JStr a \<Longrightarrow>
   \<not> is_blank a \<Longrightarrow> list_all (\<lambda>asset. js_get asset ''id'' \<noteq> JStr a) assets \<Longrightarrow>
   (path, a) \<in> set (unresolved assets visits)"
  by (induction visits) (auto split: jsval.splits)

text \<open>
  The lookup of an asset is the one place where the validator throws: when the \<^verbatim>\<open>assets\<close>
  array has no \<^verbatim>\<open>null\<close> and no \<^verbatim>\<open>undefined\<close> entry, \<^verbatim>\<open>validateWorldDocument\<close> returns.
\<close>

lemma find_asset_returns:
  "JNull \<notin> set assets \<Longrightarrow> JUndefined \<notin> set assets \<Longrightarrow> \<exists>found. find_asset assets a = Inr found"
proof (induction assets)
  case Nil
  show ?case by simp
next
  case (Cons asset rest)
  then show ?case by (cases asset) auto
qed

lemma validateNodeAsset_returns:
  assumes "\<forall>as. assets = Some as \<longrightarrow> JNull \<notin> set as \<and> JUndefined \<notin> set as"
  shows "\<exists>es. validateNodeAsset node path assets = Inr es"
proof -
  have fa: "\<exists>found. find_asset (case assets of None \<Rightarrow> [] | Some a \<Rightarrow> a) a = Inr found" for a
    using assms by (cases assets) (auto intro: find_asset_returns)
  show ?thesis
  proof (cases "js_in ''asset'' node \<and> isObject (js_get node ''asset'')")
    case False
    then show ?thesis by (auto simp: validateNodeAsset_def)
  next
    case True
    show ?thesis
    proof (cases "js_get (js_get node ''asset'') ''assetId''")
      case (JStr a)
      from fa [of a] obtain found where
        "find_asset (case assets of None \<Rightarrow> [] | Some a \<Rightarrow> a) a = Inr found" by blast
      with True JStr show ?thesis by (simp add: validateNodeAsset_def Let_def)
    qed (use True in \<open>simp_all add: validateNodeAsset_def Let_def\<close>)
  qed
qed

lemma validateScene_returns:
  assumes "\<forall>as. assets = Some as \<longrightarrow> JNull \<notin> set as \<and> JUndefined \<notin> set as"
  shows "\<exists>res. validateSceneNode node path assets seen = Inr res"
    and "\<exists>res. validateSceneNodes ns index prefix assets seen = Inr res"
proof (induction node path and ns index prefix arbitrary: seen and seen
       rule: scene_node_scene_nodes.induct)
  case (1 node path)
  show ?case
  proof (cases "isObject node")
    case False
    then show ?thesis by (simp add: validateSceneNode.simps)
  next
    case True
    from validateNodeAsset_returns [OF assms, of node path]
    obtain ae where ae: "validateNodeAsset node path assets = Inr ae" by blast
    show ?thesis
    proof (cases "\<exists>children. js_get node ''children'' = JArr children")
      case False
      then show ?thesis using validateSceneNode_leaf [OF True ae, of seen] by simp
    next
      case c: True
      then obtain children where ch: "js_get node ''children'' = JArr children" by blast
      from "1.IH" [OF _ ch, of "snd (validateNodeId node path seen)"] True
      obtain res where "validateSceneNodes children 0 (path @ ''.children'') assets
                          (snd (validateNodeId node path seen)) = Inr res"
        by auto
      then show ?thesis using validateSceneNode_inner [OF True ae ch, of seen]
        by (cases res) simp
    qed
  qed
next
  case (2 index prefix)
  show ?case by simp
next
  case (3 node rest index prefix)
  from "3.IH"(1) [of seen] obtain e1 s1 where
    "validateSceneNode node (prefix @ ''['' @ show_nat index @ '']'') assets seen = Inr (e1, s1)"
    by (metis prod.collapse)
  moreover from "3.IH"(2) [of s1] obtain e2 s2 where
    "validateSceneNodes rest (Suc index) prefix assets s1 = Inr (e2, s2)"
    by (metis prod.collapse)
  ultimately show ?case by simp
qed

lemma validateWorldDocument_returns:
  assumes "JNull \<notin> set (asset_list doc)" and "JUndefined \<notin> set (asset_list doc)"
  shows "\<exists>r. validateWorldDocument doc = Inr r"
proof -
  have ctx: "\<forall>as. snd (validateAssets (js_get doc ''assets'') ''assets'') = Some as
               \<longrightarrow> JNull \<notin> set as \<and> JUndefined \<notin> set as"
    using assms by (cases "js_get doc ''assets''") (auto simp: asset_list_def)
  show ?thesis
  proof (cases "js_get doc ''nodes''")
    case (JArr forest)
    from validateScene_returns(2) [OF ctx, of forest 0 "''nodes''" "{}"]
    obtain res where "validateSceneNodes forest 0 ''nodes''
                        (snd (validateAssets (js_get doc ''assets'') ''assets'')) {} = Inr res"
      by blast
    with JArr show ?thesis
      by (cases res) (simp add: validateWorldDocument_def case_prod_beta)
  qed (simp_all add: validateWorldDocument_def case_prod_beta)
qed

lemmas eval_simps = validateWorldDocument_def validateSceneNode.simps scene_node.simps
  validateNodeAsset_def validateNodeFields_def is_blank_def is_ws_def show_nat.simps digit_char_def
  apostrophe_def unique_message_def missing_message_def asset_list_def

text \<open>
  C3 fails on the code. An \<^verbatim>\<open>assets\<close> array with a \<^verbatim>\<open>null\<close> entry is reported by
  \<^verbatim>\<open>validateAssets\<close> and still handed to the node checks; resolving the asset reference of a
  node then reads \<^verbatim>\<open>asset.id\<close> of \<^verbatim>\<open>null\<close>, and \<^verbatim>\<open>validateWorldDocument\<close> throws a
  \<^verbatim>\<open>TypeError\<close> instead of returning its record.
\<close>

theorem validateWorldDocument_null_asset_throws:
  "validateWorldDocument null_asset_world = Inl TypeError"
  by (simp add: null_asset_world_def validateWorldDocument_def validateSceneNode.simps
        validateNodeAsset_def is_blank_def is_ws_def)

text \<open>
  C2, as the code has it. Whenever \<^verbatim>\<open>validateWorldDocument\<close> returns for a document whose
  \<^verbatim>\<open>nodes\<close> is an array, the uniqueness errors about nodes in its list are exactly, in
  pre-order, one for each visited node whose non-blank string id was already met at an earlier
  node of the whole walk, each built from the path of that node and the id; their number is
  the number of such ids visited less the number of distinct ones, so no first occurrence has
  one. In particular, for two visited nodes with the same non-blank string id, the error
  with the path of the later one is in the list, and \<^verbatim>\<open>valid\<close> is false.
\<close>

theorem duplicate_node_ids_flagged:
  assumes "js_get doc ''nodes'' = JArr forest" and "validateWorldDocument doc = Inr r"
  shows "filter is_node_uniqueness_error (errors r)
           = map unique_message (repeats (node_ids (scene_nodes forest 0 ''nodes'')) {})
     \<and> length (filter is_node_uniqueness_error (errors r))
           = length (node_ids (scene_nodes forest 0 ''nodes''))
               - card (snd ` set (node_ids (scene_nodes forest 0 ''nodes'')))
     \<and> (\<forall>i j x. i < j \<and> j < length (scene_nodes forest 0 ''nodes'')
            \<and> js_get (snd (scene_nodes forest 0 ''nodes'' ! i)) ''id'' = JStr x
            \<and> js_get (snd (scene_nodes forest 0 ''nodes'' ! j)) ''id'' = JStr x
            \<and> \<not> is_blank x \<longrightarrow>
          unique_message (fst (scene_nodes forest 0 ''nodes'' ! j), x) \<in> set (errors r)
          \<and> \<not> valid r)"
proof (intro conjI allI impI)
  let ?V = "scene_nodes forest 0 ''nodes''"
  note s = doc_summary [OF assms]
  show f: "filter is_node_uniqueness_error (errors r) = map unique_message (repeats (node_ids ?V) {})"
    by (rule s(1))
  show "length (filter is_node_uniqueness_error (errors r))
           = length (node_ids ?V) - card (snd ` set (node_ids ?V))"
    using repeats_count [of "{}" "node_ids ?V"] by (simp add: f)
  fix i j x
  assume h: "i < j \<and> j < length ?V \<and> js_get (snd (?V ! i)) ''id'' = JStr x
            \<and> js_get (snd (?V ! j)) ''id'' = JStr x \<and> \<not> is_blank x"
  then have "(fst (?V ! j), x) \<in> set (repeats (node_ids ?V) {})"
    using repeats_later [of j ?V x "{}"] by blast
  then have "unique_message (fst (?V ! j), x) \<in> set (filter is_node_uniqueness_error (errors r))"
    unfolding f by auto
  then show m: "unique_message (fst (?V ! j), x) \<in> set (errors r)" by simp
  then show "\<not> valid r" using s(3) by auto
qed

theorem duplicate_node_ids_flagged_witness:
  "js_get duplicate_ids_world ''nodes'' = JArr duplicate_ids_forest
   \<and> validateWorldDocument duplicate_ids_world
       = Inr \<lparr>valid = False, errors = [unique_message (''nodes[1].children[0]'', ''x'')]\<rparr>
   \<and> map fst (scene_nodes duplicate_ids_forest 0 ''nodes'')
       = [''nodes[0]'', ''nodes[0].children[0]'', ''nodes[1]'', ''nodes[1].children[0]'']
   \<and> node_ids (scene_nodes duplicate_ids_forest 0 ''nodes'')
       = [(''nodes[0]'', ''x''), (''nodes[0].children[0]'', ''y''), (''nodes[1]'', ''z''),
          (''nodes[1].children[0]'', ''x'')]
   \<and> filter is_node_uniqueness_error [unique_message (''nodes[1].children[0]'', ''x'')]
       = [unique_message (''nodes[1].children[0]'', ''x'')]
   \<and> unique_message (fst (scene_nodes duplicate_ids_forest 0 ''nodes'' ! 3), ''x'')
       \<in> set [unique_message (''nodes[1].children[0]'', ''x'')]"
proof -
  let ?r = "\<lparr>valid = False, errors = [unique_message (''nodes[1].children[0]'', ''x'')]\<rparr>"
  have g: "js_get duplicate_ids_world ''nodes'' = JArr duplicate_ids_forest"
    by (simp add: duplicate_ids_world_def)
  have v: "validateWorldDocument duplicate_ids_world = Inr ?r"
    by (simp add: duplicate_ids_world_def duplicate_ids_forest_def eval_simps)
  have V: "scene_nodes duplicate_ids_forest 0 ''nodes''
    = [(''nodes[0]'', duplicate_ids_forest ! 0),
       (''nodes[0].children[0]'', JObj [(''id'', JStr ''y'')]),
       (''nodes[1]'', duplicate_ids_forest ! 1),
       (''nodes[1].children[0]'', JObj [(''id'', JStr ''x'')])]"
    by (simp add: duplicate_ids_forest_def eval_simps)
  have ids: "node_ids (scene_nodes duplicate_ids_forest 0 ''nodes'')
       = [(''nodes[0]'', ''x''), (''nodes[0].children[0]'', ''y''), (''nodes[1]'', ''z''),
          (''nodes[1].children[0]'', ''x'')]"
    unfolding V by (simp add: duplicate_ids_forest_def is_blank_def is_ws_def)
  from duplicate_node_ids_flagged [OF g v]
  have "filter is_node_uniqueness_error (errors ?r)
          = map unique_message (repeats (node_ids (scene_nodes duplicate_ids_forest 0 ''nodes'')) {})"
    by blast
  then have f: "filter is_node_uniqueness_error [unique_message (''nodes[1].children[0]'', ''x'')]
       = [unique_message (''nodes[1].children[0]'', ''x'')]"
    unfolding ids by simp
  have h: "(0::nat) < 3 \<and> 3 < length (scene_nodes duplicate_ids_forest 0 ''nodes'')
             \<and> js_get (snd (scene_nodes duplicate_ids_forest 0 ''nodes'' ! 0)) ''id'' = JStr ''x''
             \<and> js_get (snd (scene_nodes duplicate_ids_forest 0 ''nodes'' ! 3)) ''id'' = JStr ''x''
             \<and> \<not> is_blank ''x''"
    unfolding V by (simp add: duplicate_ids_forest_def is_blank_def is_ws_def)
  from duplicate_node_ids_flagged [OF g v] h
  have m: "unique_message (fst (scene_nodes duplicate_ids_forest 0 ''nodes'' ! 3), ''x'') \<in> set (errors ?r)"
    by blast
  from g v V ids f m show ?thesis by simp
qed

text \<open>
  C2 as stated fails for two nodes that share a blank id: both are reported for the id that
  is not a non-empty string, and no uniqueness error is produced.
\<close>

theorem blank_duplicate_ids_counterexample:
  "validateWorldDocument
     (JObj [(''nodes'', JArr [JObj [(''id'', JStr [])], JObj [(''id'', JStr [])]])])
     = Inr \<lparr>valid = False,
            errors = [''nodes[0].id must be a non-empty string'',
                      ''nodes[1].id must be a non-empty string'']\<rparr>"
  by (simp add: eval_simps)

text \<open>
  C4, as the code has it. Whenever \<^verbatim>\<open>validateWorldDocument\<close> returns for a document whose
  \<^verbatim>\<open>nodes\<close> is an array, the missing-asset errors in its list are exactly, in pre-order,
  one for each visited node whose asset reference carries a non-blank string \<^verbatim>\<open>assetId\<close>
  that is the \<^verbatim>\<open>id\<close> of no entry of the \<^verbatim>\<open>assets\<close> array, each built from the path of that
  node and the \<^verbatim>\<open>assetId\<close>. The entries are those of the array as it is: an entry with a
  matching id resolves the reference whatever its other fields are, and when \<^verbatim>\<open>assets\<close> is
  absent or not an array no reference resolves.
\<close>

theorem missing_asset_reported:
  assumes "js_get doc ''nodes'' = JArr forest" and "validateWorldDocument doc = Inr r"
  shows "filter is_missing_asset_error (errors r)
           = map missing_message (unresolved (asset_list doc) (scene_nodes forest 0 ''nodes''))
     \<and> (\<forall>path node a. (path, node) \<in> set (scene_nodes forest 0 ''nodes'')
            \<and> js_get (js_get node ''asset'') ''assetId'' = JStr a \<and> \<not> is_blank a
            \<and> list_all (\<lambda>asset. js_get asset ''id'' \<noteq> JStr a) (asset_list doc) \<longrightarrow>
          missing_message (path, a) \<in> set (errors r) \<and> \<not> valid r)"
proof (intro conjI allI impI)
  let ?V = "scene_nodes forest 0 ''nodes''"
  note s = doc_summary [OF assms]
  show f: "filter is_missing_asset_error (errors r)
             = map missing_message (unresolved (asset_list doc) ?V)"
    by (rule s(2))
  fix path node a
  assume h: "(path, node) \<in> set ?V \<and> js_get (js_get node ''asset'') ''assetId'' = JStr a
             \<and> \<not> is_blank a \<and> list_all (\<lambda>asset. js_get asset ''id'' \<noteq> JStr a) (asset_list doc)"
  then have "(path, a) \<in> set (unresolved (asset_list doc) ?V)"
    using unresolved_member [of path node ?V a "asset_list doc"] by blast
  then have "missing_message (path, a) \<in> set (filter is_missing_asset_error (errors r))"
    unfolding f by auto
  then show m: "missing_message (path, a) \<in> set (errors r)" by simp
  then show "\<not> valid r" using s(3) by auto
qed

theorem missing_asset_reported_witness:
  "js_get asset_refs_world ''nodes'' = JArr asset_refs_forest
   \<and> validateWorldDocument asset_refs_world
       = Inr \<lparr>valid = False,
              errors = [''assets[0].uri must be a non-empty string'', ''assets[1] must be an object'',
                        missing_message (''nodes[1]'', ''missing'')]\<rparr>
   \<and> asset_list asset_refs_world = [JObj [(''id'', JStr ''hero''), (''uri'', JStr [])], JNum (Fin 7)]
   \<and> unresolved (asset_list asset_refs_world) (scene_nodes asset_refs_forest 0 ''nodes'')
       = [(''nodes[1]'', ''missing'')]
   \<and> missing_message (''nodes[1]'', ''missing'')
       \<in> set [''assets[0].uri must be a non-empty string'', ''assets[1] must be an object'',
               missing_message (''nodes[1]'', ''missing'')]"
proof -
  let ?r = "\<lparr>valid = False,
              errors = [''assets[0].uri must be a non-empty string'', ''assets[1] must be an object'',
                        missing_message (''nodes[1]'', ''missing'')]\<rparr>"
  have g: "js_get asset_refs_world ''nodes'' = JArr asset_refs_forest"
    by (simp add: asset_refs_world_def)
  have v: "validateWorldDocument asset_refs_world = Inr ?r"
    by (simp add: asset_refs_world_def asset_refs_forest_def eval_simps)
  have a: "asset_list asset_refs_world = [JObj [(''id'', JStr ''hero''), (''uri'', JStr [])], JNum (Fin 7)]"
    by (simp add: asset_refs_world_def asset_list_def)
  have V: "scene_nodes asset_refs_forest 0 ''nodes''
             = [(''nodes[0]'', asset_refs_forest ! 0), (''nodes[1]'', asset_refs_forest ! 1)]"
    by (simp add: asset_refs_forest_def eval_simps)
  have u: "unresolved (asset_list asset_refs_world) (scene_nodes asset_refs_forest 0 ''nodes'')
             = [(''nodes[1]'', ''missing'')]"
    unfolding V a by (simp add: asset_refs_forest_def is_blank_def is_ws_def)
  have h: "(''nodes[1]'', asset_refs_forest ! 1) \<in> set (scene_nodes asset_refs_forest 0 ''nodes'')
           \<and> js_get (js_get (asset_refs_forest ! 1) ''asset'') ''assetId'' = JStr ''missing''
           \<and> \<not> is_blank ''missing''
           \<and> list_all (\<lambda>asset. js_get asset ''id'' \<noteq> JStr ''missing'') (asset_list asset_refs_world)"
    unfolding V a by (simp add: asset_refs_forest_def is_blank_def is_ws_def)
  from missing_asset_reported [OF g v] h
  have "missing_message (''nodes[1]'', ''missing'') \<in> set (errors ?r)"
    by blast
  with g v a u show ?thesis by simp
qed

text \<open>
  C4 as stated fails for an \<^verbatim>\<open>assetId\<close> that is blank: it names no entry of the asset list,
  and the error reported is that it must be a non-empty string.
\<close>

theorem blank_asset_reference_counterexample:
  "validateWorldDocument
     (JObj [(''assets'', JArr []),
            (''nodes'', JArr [JObj [(''id'', JStr ''a''), (''asset'', JObj [(''assetId'', JStr [])])]])])
     = Inr \<lparr>valid = False, errors = [''nodes[0].asset.assetId must be a non-empty string'']\<rparr>"
  by (simp add: eval_simps)

subsection \<open>Serializer\<close>

lemma to_json_safe:
  "json_safe v \<Longrightarrow> to_json v = Some v"
  "json_safe_elems xs \<Longrightarrow> to_json_elems xs = xs"
  "json_safe_props kvs \<Longrightarrow> to_json_props kvs = kvs"
  by (induction v and xs and kvs rule: to_json_to_json_elems_to_json_props.induct)
     (auto split: jsnum.splits)

lemma map_of_set_prop_same: "map_of (set_prop k v kvs) k = Some v"
  by (induction kvs) auto

lemma map_of_set_prop_other: "k' \<noteq> k \<Longrightarrow> map_of (set_prop k v kvs) k' = map_of kvs k'"
  by (induction kvs) auto

lemma set_prop_twice: "set_prop k v (set_prop k v' kvs) = set_prop k v kvs"
  by (induction kvs) auto

lemma json_safe_set_prop: "json_safe v \<Longrightarrow> json_safe_props kvs \<Longrightarrow> json_safe_props (set_prop k v kvs)"
  by (induction kvs) auto

lemma validate_set_version:
  "validateWorldDocument (JObj (set_prop ''version'' v kvs)) = validateWorldDocument (JObj kvs)"
  by (simp add: validateWorldDocument_def map_of_set_prop_other)


lemma valid_isObject: "validateWorldDocument doc = Inr r \<Longrightarrow> valid r \<Longrightarrow> isObject doc"
  by (cases "isObject doc") (auto simp: validateWorldDocument_def)

lemma deserialize_object:
  "deserializeWorld coerce (Some (JObj kvs)) =
     (if js_gt coerce (if js_get (JObj kvs) ''version'' = JUndefined then JNum (Fin 0) else js_get (JObj kvs) ''version'') CURRENT_WORLD_SCHEMA_VERSION
      then Inl (FutureVersionError (js_get (JObj kvs) ''version''))
      else (case validateWorldDocument (JObj kvs) of
              Inl e \<Rightarrow> Inl e
            | Inr validation \<Rightarrow>
                if valid validation then Inr (with_version (JObj kvs))
                else Inl (InvalidDocumentError (errors validation))))"
  by (auto simp: deserializeWorld_def JSON_parse_def validate_set_version with_version_def set_prop_twice
           js_gt_def CURRENT_WORLD_SCHEMA_VERSION_def
           split: sum.splits)

text \<open>
  C1, for the documents that a JSON text can hold. When a document passes the validator and
  holds no \<^verbatim>\<open>undefined\<close>, no non-finite number and no negative zero at any depth,
  \<^verbatim>\<open>serializeWorld\<close> succeeds and \<^verbatim>\<open>deserializeWorld\<close> of its text returns the document with
  its \<^verbatim>\<open>version\<close> property set to 1 and everything else as it was.
\<close>

theorem serialize_deserialize_roundtrip:
  assumes "json_safe doc" and "validateWorldDocument doc = Inr r" and "valid r"
  shows "serializeWorld doc = Inr (JSON_stringify (with_version doc))
         \<and> deserializeWorld coerce (JSON_stringify (with_version doc)) = Inr (with_version doc)"
proof -
  from assms(2,3) have "isObject doc" by (rule valid_isObject)
  then obtain kvs where doc: "doc = JObj kvs" by (cases doc) auto
  let ?v1 = "JNum CURRENT_WORLD_SCHEMA_VERSION"
  let ?kvs = "set_prop ''version'' ?v1 kvs"
  have wv: "with_version doc = JObj ?kvs" by (simp add: with_version_def doc)
  from assms(1) doc have "json_safe_props ?kvs"
    by (simp add: json_safe_set_prop CURRENT_WORLD_SCHEMA_VERSION_def)
  then have tj: "JSON_stringify (JObj ?kvs) = Some (JObj ?kvs)"
    by (simp add: JSON_stringify_def to_json_safe)
  have ser: "serializeWorld doc = Inr (JSON_stringify (with_version doc))"
    using assms(2,3) by (simp add: serializeWorld_def)
  have ver: "js_get (JObj ?kvs) ''version'' = ?v1"
    by (simp add: map_of_set_prop_same)
  have val: "validateWorldDocument (JObj ?kvs) = Inr r"
    using assms(2) doc by (simp add: validate_set_version)
  have "deserializeWorld coerce (Some (JObj ?kvs)) = Inr (with_version (JObj ?kvs))"
    unfolding deserialize_object ver val using assms(3)
    by (simp add: js_gt_def CURRENT_WORLD_SCHEMA_VERSION_def)
  moreover have "with_version (JObj ?kvs) = JObj ?kvs"
    by (simp add: with_version_def set_prop_twice)
  ultimately show ?thesis using ser wv tj by simp
qed

theorem serialize_deserialize_roundtrip_witness:
  "json_safe demo_world
   \<and> validateWorldDocument demo_world = Inr \<lparr>valid = True, errors = []\<rparr>
   \<and> serializeWorld demo_world = Inr (JSON_stringify (with_version demo_world))
   \<and> deserializeWorld nan_coercion (JSON_stringify (with_version demo_world))
       = Inr (with_version demo_world)
   \<and> js_get demo_world ''version'' = JNum (Fin 7)
   \<and> js_get (with_version demo_world) ''version'' = JNum (Fin 1)"
proof -
  have a: "json_safe demo_world" by (simp add: demo_world_def)
  have b: "validateWorldDocument demo_world = Inr \<lparr>valid = True, errors = []\<rparr>"
    by (simp add: demo_world_def validateWorldDocument_def validateSceneNode.simps
          validateNodeAsset_def validateNodeFields_def is_blank_def is_ws_def)
  have c: "valid \<lparr>valid = True, errors = []\<rparr>" by simp
  have d: "js_get demo_world ''version'' = JNum (Fin 7)"
    "js_get (with_version demo_world) ''version'' = JNum (Fin 1)"
    by (simp_all add: demo_world_def with_version_def CURRENT_WORLD_SCHEMA_VERSION_def)
  from serialize_deserialize_roundtrip [OF a b c, of nan_coercion] a b d show ?thesis by simp
qed

text \<open>
  C1 as stated fails: a document whose metadata holds an array with an \<^verbatim>\<open>undefined\<close> entry
  passes the validator, and comes back with \<^verbatim>\<open>null\<close> in the place of \<^verbatim>\<open>undefined\<close>.
\<close>

theorem roundtrip_undefined_entry_counterexample:
  "validateWorldDocument undefined_entry_world = Inr \<lparr>valid = True, errors = []\<rparr>
   \<and> serializeWorld undefined_entry_world
       = Inr (Some (JObj [(''metadata'', JObj [(''notes'', JArr [JNull])]), (''nodes'', JArr []),
                          (''version'', JNum (Fin 1))]))
   \<and> deserializeWorld nan_coercion
        (Some (JObj [(''metadata'', JObj [(''notes'', JArr [JNull])]), (''nodes'', JArr []),
                     (''version'', JNum (Fin 1))]))
       = Inr (JObj [(''metadata'', JObj [(''notes'', JArr [JNull])]), (''nodes'', JArr []),
                    (''version'', JNum (Fin 1))])
   \<and> JObj [(''metadata'', JObj [(''notes'', JArr [JNull])]), (''nodes'', JArr []),
            (''version'', JNum (Fin 1))]
       \<noteq> with_version undefined_entry_world"
proof -
  have v: "validateWorldDocument undefined_entry_world = Inr \<lparr>valid = True, errors = []\<rparr>"
    by (simp add: undefined_entry_world_def validateWorldDocument_def)
  have v': "validateWorldDocument (JObj [(''metadata'', JObj [(''notes'', JArr [JNull])]), (''nodes'', JArr []),
                          (''version'', JNum (Fin 1))]) = Inr \<lparr>valid = True, errors = []\<rparr>"
    by (simp add: validateWorldDocument_def)
  have s: "serializeWorld undefined_entry_world
       = Inr (Some (JObj [(''metadata'', JObj [(''notes'', JArr [JNull])]), (''nodes'', JArr []),
                          (''version'', JNum (Fin 1))]))"
    by (simp add: serializeWorld_def v)
       (simp add: undefined_entry_world_def with_version_def JSON_stringify_def CURRENT_WORLD_SCHEMA_VERSION_def)
  have d: "deserializeWorld nan_coercion
        (Some (JObj [(''metadata'', JObj [(''notes'', JArr [JNull])]), (''nodes'', JArr []),
                     (''version'', JNum (Fin 1))]))
       = Inr (JObj [(''metadata'', JObj [(''notes'', JArr [JNull])]), (''nodes'', JArr []),
                    (''version'', JNum (Fin 1))])"
    unfolding deserialize_object v'
    by (simp add: js_gt_def with_version_def CURRENT_WORLD_SCHEMA_VERSION_def)
  have n: "JObj [(''metadata'', JObj [(''notes'', JArr [JNull])]), (''nodes'', JArr []),
            (''version'', JNum (Fin 1))]
       \<noteq> with_version undefined_entry_world"
    by (simp add: undefined_entry_world_def with_version_def CURRENT_WORLD_SCHEMA_VERSION_def)
  from v s d n show ?thesis by blast
qed



subsection \<open>Tree index\<close>

lemma argument_after_ref: "node_ref (argument_after n ident u) = node_ref n"
  by (simp add: argument_after_def)





























subsection \<open>Selection manager\<close>

lemma indexOf_range: "indexOf xs x = -1 \<or> (0 \<le> indexOf xs x \<and> indexOf xs x < int (length xs))"
  by (induction xs) (auto simp: Let_def)

lemma indexOf_absent: "indexOf xs x = -1 \<longleftrightarrow> x \<notin> set xs"
proof (induction xs)
  case Nil
  show ?case by simp
next
  case (Cons y ys)
  from indexOf_range [of ys x] Cons show ?case by (auto simp: Let_def)
qed

lemma indexOf_first:
  "k < length xs \<Longrightarrow> xs ! k = x \<Longrightarrow> x \<notin> set (take k xs) \<Longrightarrow> indexOf xs x = int k"
proof (induction xs arbitrary: k)
  case Nil
  then show ?case by simp
next
  case (Cons y ys)
  show ?case
  proof (cases k)
    case 0
    with Cons.prems show ?thesis by simp
  next
    case (Suc j)
    with Cons.prems have "j < length ys" "ys ! j = x" "x \<notin> set (take j ys)" "y \<noteq> x"
      by auto
    with Cons.IH [of j] Suc show ?thesis by (simp add: Let_def)
  qed
qed

lemma new_Set_single: "new_Set [x] = [x]"
  by (simp add: new_Set_def set_add_def)

lemma js_rem_nonneg: "0 \<le> a \<Longrightarrow> 0 < b \<Longrightarrow> js_rem a b = a mod b"
  by (cases "a = 0") (simp_all add: js_rem_def)

lemma focusNext_empty:
  "focusNext [] direction sm = (None, sm\<lparr>focused := None, selection := []\<rparr>)"
  by (simp add: focusNext_def)

lemma focusNext_restart:
  assumes "order \<noteq> []" and "\<not> truthy_id (focused sm) \<or> the (focused sm) \<notin> set order"
  shows "focusNext order direction sm
           = (Some (order ! 0), sm\<lparr>selection := [Some (order ! 0)], focused := Some (order ! 0)\<rparr>)"
proof -
  from assms(2) have "(if truthy_id (focused sm) then indexOf order (the (focused sm)) else -1) = -1"
    by (auto simp: indexOf_absent)
  with assms(1) show ?thesis
    by (simp add: focusNext_def Let_def js_nth_def new_Set_single)
qed

declare bit_length.simps [simp del]

lemma bit_length_le: "bit_length m \<le> k \<longleftrightarrow> m < 2 ^ k"
proof (induction k arbitrary: m)
  case 0
  show ?case by (subst bit_length.simps) simp
next
  case (Suc k)
  have "bit_length m \<le> Suc k \<longleftrightarrow> m = 0 \<or> bit_length (m div 2) \<le> k"
    by (subst bit_length.simps) simp
  also have "\<dots> \<longleftrightarrow> m = 0 \<or> m div 2 < 2 ^ k" by (simp add: Suc.IH)
  also have "\<dots> \<longleftrightarrow> m < 2 ^ Suc k" by auto
  finally show ?case .
qed

lemma to_double_exact:
  assumes "\<bar>n\<bar> \<le> 2 ^ 53"
  shows "to_double n = n"
proof -
  define m where "m = nat \<bar>n\<bar>"
  have n: "sgn n * int m = n" by (simp add: m_def mult_sgn_abs)
  from assms have le: "m \<le> 2 ^ 53" by (simp add: m_def nat_le_iff)
  show ?thesis
  proof (cases "m < 2 ^ 53")
    case True
    then have "bit_length m \<le> 53" by (simp add: bit_length_le)
    then have "bit_length m - 53 = 0" by simp
    then show ?thesis using n by (simp add: to_double_def Let_def m_def [symmetric])
  next
    case False
    with le have m: "m = 2 ^ 53" by simp
    then have "bit_length m \<le> 54" "\<not> bit_length m \<le> 53" by (simp_all add: bit_length_le)
    then have "bit_length m - 53 = 1" by simp
    then show ?thesis using n m by (simp add: to_double_def Let_def m_def [symmetric])
  qed
qed

lemma js_add_exact: "\<bar>a + b\<bar> \<le> 2 ^ 53 \<Longrightarrow> js_add a b = a + b"
  by (simp add: js_add_def to_double_exact)

lemma focusNext_step:
  assumes "k < length order" and "order ! k = f" and "f \<notin> set (take k order)" and "f \<noteq> []"
    and "focused sm = Some f" and "0 \<le> int k + direction + int (length order)"
    and "int k + direction + int (length order) \<le> 2 ^ 53" and "length order < 2 ^ 32"
  shows "focusNext order direction sm
           = (Some (order ! nat ((int k + direction + int (length order)) mod int (length order))),
              sm\<lparr>selection := [Some (order ! nat ((int k + direction + int (length order)) mod int (length order)))],
                 focused := Some (order ! nat ((int k + direction + int (length order)) mod int (length order)))\<rparr>)"
proof -
  let ?len = "int (length order)"
  let ?t = "(int k + direction + ?len) mod ?len"
  from assms(1) have len: "0 < ?len" by (cases order) auto
  have idx: "indexOf order f = int k" using assms(1-3) by (rule indexOf_first)
  from assms(8) have "?len < 2 ^ 32" by (simp add: of_nat_less_iff [of _ "2 ^ 32", where ?'a = int, simplified])
  with assms(6,7) have "\<bar>int k + direction\<bar> \<le> 2 ^ 53" by simp
  then have s1: "js_add (int k) direction = int k + direction" by (rule js_add_exact)
  from assms(6,7) have "\<bar>int k + direction + ?len\<bar> \<le> 2 ^ 53" by simp
  then have s2: "js_add (int k + direction) ?len = int k + direction + ?len" by (rule js_add_exact)
  have rem: "js_rem (js_add (js_add (int k) direction) ?len) ?len = ?t"
    unfolding s1 s2 using assms(6) len by (rule js_rem_nonneg)
  have t: "0 \<le> ?t" "?t < ?len" using len by simp_all
  then have nth: "js_nth (map Some order) ?t = Some (order ! nat ?t)"
    by (simp add: js_nth_def)
  from assms(1) have ne: "length order \<noteq> 0" by auto
  show ?thesis
    using ne assms(4,5) idx rem nth
    by (simp add: focusNext_def Let_def new_Set_single)
qed

lemma new_Set_set_aux: "set (foldl (\<lambda>s x. set_add x s) acc xs) = set acc \<union> set xs"
  by (induction xs arbitrary: acc) (auto simp: set_add_def)

lemma new_Set_distinct_aux: "distinct acc \<Longrightarrow> distinct (foldl (\<lambda>s x. set_add x s) acc xs)"
  by (induction xs arbitrary: acc) (auto simp: set_add_def)

lemma set_new_Set: "set (new_Set xs) = set xs"
  by (simp add: new_Set_def new_Set_set_aux)

lemma distinct_new_Set: "distinct (new_Set xs)"
  by (simp add: new_Set_def new_Set_distinct_aux)

lemma js_nth_last: "js_nth (map Some ids) (int (length ids) - 1) = (if ids = [] then None else Some (last ids))"
  by (cases ids rule: rev_cases) (auto simp: js_nth_def nth_append)

lemma js_nth_first: "js_nth (map Some ids) 0 = (if ids = [] then None else Some (hd ids))"
  by (cases ids) (auto simp: js_nth_def)

text \<open>
  Above \<open>2^53\<close> the sum is rounded: from \<^verbatim>\<open>a\<close> in \<^verbatim>\<open>[a, b, c]\<close> with the direction \<open>2^53\<close> the code
  adds \<open>0 + 2^53 + 3\<close> to \<open>2^53 + 4\<close>, whose remainder is 0, and the focus stays on \<^verbatim>\<open>a\<close>, where
  \<open>(2^53 + 3) mod 3\<close> is 2.
\<close>

lemma to_double_rounded: "to_double (2 ^ 53 + 3) = 2 ^ 53 + 4"
proof -
  have "bit_length (nat \<bar>2 ^ 53 + 3\<bar>) \<le> 54" "\<not> bit_length (nat \<bar>2 ^ 53 + 3\<bar>) \<le> 53"
    by (simp_all add: bit_length_le)
  then have e: "bit_length (nat \<bar>2 ^ 53 + 3\<bar>) - 53 = 1" by simp
  show ?thesis unfolding to_double_def Let_def e by simp
qed

lemma focusNext_rounded_sum:
  "focusNext [''a'', ''b'', ''c''] (2 ^ 53) \<lparr>selection = [Some ''a''], focused = Some ''a''\<rparr>
     = (Some ''a'', \<lparr>selection = [Some ''a''], focused = Some ''a''\<rparr>)"
proof -
  have s1: "js_add 0 (2 ^ 53) = 2 ^ 53" by (simp add: js_add_exact)
  have s2: "js_add (2 ^ 53) 3 = 2 ^ 53 + 4" unfolding js_add_def using to_double_rounded by simp
  have r: "js_rem (2 ^ 53 + 4) 3 = 0" by (simp add: js_rem_def)
  have "js_rem (js_add (js_add 0 (2 ^ 53)) 3) 3 = 0" by (simp only: s1 s2 r)
  then show ?thesis
    by (simp add: focusNext_def Let_def js_nth_def new_Set_single)
qed

text \<open>
  C8, as the code has it. On an empty order \<^verbatim>\<open>focusNext\<close> clears the selection and the focus.
  On a non-empty order, when nothing is focused (or the focused id is the empty string) or the
  focused id is not in the order, the target is the first id of the order, whatever the
  direction; when the focused id is in the order, at its first index \<open>k\<close>, the direction is an
  integer and \<open>k + direction + len\<close> is not negative and at most \<open>2^53\<close>, up to where the sums
  of the code are exact (an array has fewer than \<open>2^32\<close> elements), the target is the id at
  index \<open>(k + direction + len) mod len\<close>. The target becomes the only member of the selection
  and the focused id.
\<close>

theorem focusNext_navigation:
  "(order = [] \<longrightarrow> focusNext order direction sm = (None, sm\<lparr>focused := None, selection := []\<rparr>))
   \<and> (order \<noteq> [] \<and> (\<not> truthy_id (focused sm) \<or> the (focused sm) \<notin> set order) \<longrightarrow>
        focusNext order direction sm
          = (Some (order ! 0), sm\<lparr>selection := [Some (order ! 0)], focused := Some (order ! 0)\<rparr>))
   \<and> (\<forall>k f. k < length order \<and> order ! k = f \<and> f \<notin> set (take k order) \<and> f \<noteq> []
          \<and> focused sm = Some f \<and> 0 \<le> int k + direction + int (length order)
          \<and> int k + direction + int (length order) \<le> 2 ^ 53 \<and> length order < 2 ^ 32 \<longrightarrow>
        focusNext order direction sm
          = (Some (order ! nat ((int k + direction + int (length order)) mod int (length order))),
             sm\<lparr>selection := [Some (order ! nat ((int k + direction + int (length order))
                                                    mod int (length order)))],
                focused := Some (order ! nat ((int k + direction + int (length order))
                                                mod int (length order)))\<rparr>))"
proof (intro conjI impI allI)
  assume "order = []"
  then show "focusNext order direction sm = (None, sm\<lparr>focused := None, selection := []\<rparr>)"
    by (simp add: focusNext_empty)
next
  assume "order \<noteq> [] \<and> (\<not> truthy_id (focused sm) \<or> the (focused sm) \<notin> set order)"
  then show "focusNext order direction sm
          = (Some (order ! 0), sm\<lparr>selection := [Some (order ! 0)], focused := Some (order ! 0)\<rparr>)"
    using focusNext_restart [of order sm direction] by blast
next
  fix k f
  assume "k < length order \<and> order ! k = f \<and> f \<notin> set (take k order) \<and> f \<noteq> []
          \<and> focused sm = Some f \<and> 0 \<le> int k + direction + int (length order)
          \<and> int k + direction + int (length order) \<le> 2 ^ 53 \<and> length order < 2 ^ 32"
  then show "focusNext order direction sm
          = (Some (order ! nat ((int k + direction + int (length order)) mod int (length order))),
             sm\<lparr>selection := [Some (order ! nat ((int k + direction + int (length order))
                                                    mod int (length order)))],
                focused := Some (order ! nat ((int k + direction + int (length order))
                                                mod int (length order)))\<rparr>)"
    using focusNext_step [of k order f sm direction] by blast
qed

text \<open>
  The cycle of the specification: from no focus to \<^verbatim>\<open>a\<close>, then to \<^verbatim>\<open>b\<close>; backwards from \<^verbatim>\<open>a\<close>
  to \<^verbatim>\<open>c\<close>; and the empty order.
\<close>

theorem focusNext_navigation_witness:
  "focusNext [] 1 \<lparr>selection = [Some ''a''], focused = Some ''a''\<rparr>
     = (None, \<lparr>selection = [], focused = None\<rparr>)
   \<and> focusNext [''a'', ''b'', ''c''] 1 \<lparr>selection = [], focused = None\<rparr>
     = (Some ''a'', \<lparr>selection = [Some ''a''], focused = Some ''a''\<rparr>)
   \<and> focusNext [''a'', ''b'', ''c''] 1 \<lparr>selection = [Some ''a''], focused = Some ''a''\<rparr>
     = (Some ''b'', \<lparr>selection = [Some ''b''], focused = Some ''b''\<rparr>)
   \<and> focusNext [''a'', ''b'', ''c''] (- 1) \<lparr>selection = [Some ''a''], focused = Some ''a''\<rparr>
     = (Some ''c'', \<lparr>selection = [Some ''c''], focused = Some ''c''\<rparr>)"
proof -
  let ?order = "[''a'', ''b'', ''c'']"
  let ?at_a = "\<lparr>selection = [Some ''a''], focused = Some ''a''\<rparr>"
  let ?none = "\<lparr>selection = [], focused = None\<rparr>"
  from focusNext_navigation [of "[]" 1 ?at_a]
  have e: "focusNext [] 1 ?at_a = (None, ?none)" by simp
  have "?order \<noteq> [] \<and> (\<not> truthy_id (focused ?none) \<or> the (focused ?none) \<notin> set ?order)"
    by simp
  with focusNext_navigation [of ?order 1 ?none]
  have r: "focusNext ?order 1 ?none = (Some ''a'', ?at_a)" by simp
  have h: "(0::nat) < length ?order \<and> ?order ! 0 = ''a'' \<and> ''a'' \<notin> set (take 0 ?order) \<and> ''a'' \<noteq> []
             \<and> focused ?at_a = Some ''a''"
    by simp
  from focusNext_navigation [of ?order 1 ?at_a] h
  have "focusNext ?order 1 ?at_a
          = (Some (?order ! nat ((int 0 + 1 + int (length ?order)) mod int (length ?order))),
             ?at_a\<lparr>selection := [Some (?order ! nat ((int 0 + 1 + int (length ?order)) mod int (length ?order)))],
                   focused := Some (?order ! nat ((int 0 + 1 + int (length ?order)) mod int (length ?order)))\<rparr>)"
    by (elim conjE allE [of _ 0] allE [of _ "''a''"]) simp
  then have f: "focusNext ?order 1 ?at_a = (Some ''b'', \<lparr>selection = [Some ''b''], focused = Some ''b''\<rparr>)"
    by simp
  from focusNext_navigation [of ?order "- 1" ?at_a] h
  have "focusNext ?order (- 1) ?at_a
          = (Some (?order ! nat ((int 0 + - 1 + int (length ?order)) mod int (length ?order))),
             ?at_a\<lparr>selection := [Some (?order ! nat ((int 0 + - 1 + int (length ?order)) mod int (length ?order)))],
                   focused := Some (?order ! nat ((int 0 + - 1 + int (length ?order)) mod int (length ?order)))\<rparr>)"
    by (elim conjE allE [of _ 0] allE [of _ "''a''"]) simp
  then have b: "focusNext ?order (- 1) ?at_a = (Some ''c'', \<lparr>selection = [Some ''c''], focused = Some ''c''\<rparr>)"
    by simp
  from e r f b show ?thesis by blast
qed

text \<open>
  C8 as stated fails when nothing is focused and the direction is \<open>-1\<close>: with
  \<open>currentIndex = -1\<close> the stated index is \<open>(-1 + -1 + 3) mod 3 = 1\<close>, the id \<^verbatim>\<open>b\<close>, and the
  code focuses the id at index 0.
\<close>

theorem focusNext_unfocused_backwards_counterexample:
  "focused (snd (focusNext [''a'', ''b'', ''c''] (- 1) \<lparr>selection = [], focused = None\<rparr>))
     \<noteq> Some ([''a'', ''b'', ''c''] ! nat ((- 1 + - 1 + int (length [''a'', ''b'', ''c'']))
                                           mod int (length [''a'', ''b'', ''c''])))"
  by (simp add: focusNext_def Let_def js_nth_def new_Set_single)

text \<open>
  C9, as the code has it. \<^verbatim>\<open>setSelection\<close> makes the selection the set of the given ids and
  returns it. With \<^verbatim>\<open>focusLast\<close> the focus becomes the last given id (none when no id is
  given). Without it the focus stays when the focused id is among the given ids and also when
  nothing is focused (or the focused id is the empty string); a focused id that is not among
  the given ids is replaced by the first given id (none when no id is given).
\<close>

theorem setSelection_focus:
  "set (selection (snd (setSelection ids focusLast sm))) = Some ` set ids
   \<and> distinct (selection (snd (setSelection ids focusLast sm)))
   \<and> fst (setSelection ids focusLast sm) = selection (snd (setSelection ids focusLast sm))
   \<and> (focusLast \<longrightarrow>
        focused (snd (setSelection ids focusLast sm)) = (if ids = [] then None else Some (last ids)))
   \<and> (\<not> focusLast \<and> focused sm \<in> Some ` set ids \<longrightarrow>
        focused (snd (setSelection ids focusLast sm)) = focused sm)
   \<and> (\<not> focusLast \<and> \<not> truthy_id (focused sm) \<longrightarrow>
        focused (snd (setSelection ids focusLast sm)) = focused sm)
   \<and> (\<not> focusLast \<and> truthy_id (focused sm) \<and> focused sm \<notin> Some ` set ids \<longrightarrow>
        focused (snd (setSelection ids focusLast sm)) = (if ids = [] then None else Some (hd ids)))"
  by (simp add: setSelection_def Let_def getSelection_def set_new_Set distinct_new_Set
        js_nth_last js_nth_first)

theorem setSelection_focus_witness:
  "focused (snd (setSelection [''a'', ''b''] True \<lparr>selection = [], focused = None\<rparr>)) = Some ''b''
   \<and> focused (snd (setSelection [''a'', ''b''] False \<lparr>selection = [Some ''b''], focused = Some ''b''\<rparr>))
       = Some ''b''
   \<and> focused (snd (setSelection [''a'', ''b''] False \<lparr>selection = [], focused = None\<rparr>)) = None
   \<and> focused (snd (setSelection [''a'', ''b''] False \<lparr>selection = [Some ''z''], focused = Some ''z''\<rparr>))
       = Some ''a''
   \<and> set (selection (snd (setSelection [''a'', ''b''] False \<lparr>selection = [Some ''z''], focused = Some ''z''\<rparr>)))
       = {Some ''a'', Some ''b''}"
  using setSelection_focus [of "[''a'', ''b'']" True "\<lparr>selection = [], focused = None\<rparr>"]
        setSelection_focus [of "[''a'', ''b'']" False "\<lparr>selection = [Some ''b''], focused = Some ''b''\<rparr>"]
        setSelection_focus [of "[''a'', ''b'']" False "\<lparr>selection = [], focused = None\<rparr>"]
        setSelection_focus [of "[''a'', ''b'']" False "\<lparr>selection = [Some ''z''], focused = Some ''z''\<rparr>"]
  by simp

text \<open>
  C9 as stated fails when nothing was focused: the focus is not given to the first id.
\<close>

theorem setSelection_unfocused_counterexample:
  "focused (snd (setSelection [''a''] False \<lparr>selection = [], focused = None\<rparr>)) \<noteq> Some ''a''"
  by (simp add: setSelection_def Let_def getSelection_def)

subsection \<open>Mode manager\<close>

lemma createOrGetContext_facts:
  "mode (snd (createOrGetContext m mm)) = mode mm"
  "dirty (snd (createOrGetContext m mm)) = dirty mm"
  "options (snd (createOrGetContext m mm)) = options mm"
  "listeners (snd (createOrGetContext m mm)) = listeners mm"
  "trace (snd (createOrGetContext m mm)) = trace mm @ (case map_of (contexts mm) m of None \<Rightarrow> [Created m] | Some c \<Rightarrow> [])"
  by (auto simp: createOrGetContext_def Let_def split: option.splits)

lemma isDirty_createOrGetContext: "isDirty (snd (createOrGetContext m mm)) = isDirty mm"
  by (simp add: isDirty_def createOrGetContext_facts split: option.splits)

text \<open>
  C7. In mode \<^verbatim>\<open>edit\<close>, when the dirty check reports unsaved changes, no autosave policy is
  configured and the confirm policy resolves to a falsy value, \<^verbatim>\<open>switchMode('play')\<close> returns
  \<^verbatim>\<open>false\<close> and the mode stays \<^verbatim>\<open>edit\<close>. The only callbacks that run are the context
  factory, when the play context does not exist yet, and the confirm policy: no activate or
  deactivate hook fires and no subscriber is notified. The dirty flag and the subscribers are
  unchanged.
\<close>

theorem switchMode_blocked:
  assumes "mode mm = ''edit''" and "truthy (isDirty mm)" and "\<not> autoSave (options mm)"
    and "confirmSwitch (options mm) = Some confirm" and "\<not> truthy (confirm ''edit'' ''play'')"
  shows "fst (switchMode ''play'' mm) = False
     \<and> mode (snd (switchMode ''play'' mm)) = ''edit''
     \<and> dirty (snd (switchMode ''play'' mm)) = dirty mm
     \<and> listeners (snd (switchMode ''play'' mm)) = listeners mm
     \<and> trace (snd (switchMode ''play'' mm))
         = trace mm @ (case map_of (contexts mm) ''play'' of None \<Rightarrow> [Created ''play''] | Some c \<Rightarrow> [])
             @ [ConfirmAsked ''edit'' ''play'']
     \<and> filter fires (trace (snd (switchMode ''play'' mm))) = filter fires (trace mm)"
proof -
  obtain nx mm1 where c: "createOrGetContext ''play'' mm = (nx, mm1)" by (metis prod.collapse)
  from createOrGetContext_facts [of "''play''" mm] isDirty_createOrGetContext [of "''play''" mm] c
  have f: "mode mm1 = mode mm" "dirty mm1 = dirty mm" "options mm1 = options mm" "listeners mm1 = listeners mm"
    "trace mm1 = trace mm @ (case map_of (contexts mm) ''play'' of None \<Rightarrow> [Created ''play''] | Some c \<Rightarrow> [])"
    "isDirty mm1 = isDirty mm"
    by simp_all
  have h: "handleUnsavedChanges ''play'' mm1
             = (confirm ''edit'' ''play'', mm1\<lparr>trace := trace mm1 @ [ConfirmAsked ''edit'' ''play'']\<rparr>)"
    using assms f by (simp add: handleUnsavedChanges_def Let_def)
  have s: "switchMode ''play'' mm = (False, mm1\<lparr>trace := trace mm1 @ [ConfirmAsked ''edit'' ''play'']\<rparr>)"
    using assms(1,5) c h by (simp add: switchMode_def Let_def)
  show ?thesis using f assms(1) by (auto simp: s split: option.splits)
qed

theorem switchMode_blocked_witness:
  "mode editing = ''edit'' \<and> truthy (isDirty editing) \<and> \<not> autoSave (options editing)
   \<and> fst (switchMode ''play'' editing) = False
   \<and> mode (snd (switchMode ''play'' editing)) = ''edit''
   \<and> trace (snd (switchMode ''play'' editing))
       = [Created ''edit'', Activated ''edit'', Notified 0 ''edit'', Notified 1 ''edit'',
          Created ''play'', ConfirmAsked ''edit'' ''play'']
   \<and> filter fires (trace (snd (switchMode ''play'' editing)))
       = [Activated ''edit'', Notified 0 ''edit'', Notified 1 ''edit'']"
proof -
  have a: "mode editing = ''edit''" by (simp add: editing_def)
  have b: "truthy (isDirty editing)" by (simp add: editing_def blocking_options_def isDirty_def)
  have c: "\<not> autoSave (options editing)" by (simp add: editing_def blocking_options_def)
  have d: "confirmSwitch (options editing) = Some (\<lambda>current target. JBool False)"
    by (simp add: editing_def blocking_options_def)
  have e: "\<not> truthy ((\<lambda>current target. JBool False) ''edit'' ''play'')" by simp
  have t: "trace editing = [Created ''edit'', Activated ''edit'', Notified 0 ''edit'', Notified 1 ''edit'']"
    and m: "map_of (contexts editing) ''play'' = None"
    by (simp_all add: editing_def)
  from switchMode_blocked [OF a b c d e] a b c t m show ?thesis by simp
qed

end
